theory Spec2Isabelle
  imports Main "HOL-Library.Word"
begin

unbundle bit_operations_syntax

section \<open>Shared data model\<close>

text \<open>
  Journal entry ids (\<open>LogCabin::Client::EntryId\<close>) are numbers; the sentinel \<open>NO_ID\<close>
  is modelled by \<open>None\<close> wherever a field may hold it.  A \<open>ServerId\<close> wraps one
  64-bit number (\<open>getId()\<close>).
\<close>

type_synonym EntryId = nat
type_synonym ServerId = "64 word"

datatype ServerStatus = UP | CRASHED | REMOVED

datatype Service =
  MASTER_SERVICE | BACKUP_SERVICE | PING_SERVICE | ADMIN_SERVICE | MEMBERSHIP_SERVICE

text \<open>
  \<open>CoordinatorServerList::Entry\<close> (CoordinatorServerList.h) extends \<open>ServerDetails\<close>.
  The opaque \<open>masterRecoveryInfo\<close> protocol buffer is kept as a byte string.
\<close>

record ServerDetails =
  serverId :: ServerId
  serviceLocator :: string
  services :: "Service set"
  expectedReadMBytesPerSec :: "32 word"
  status :: ServerStatus
  replicationId :: "64 word"

record Entry = ServerDetails +
  masterRecoveryInfo :: string
  needsRecovery :: bool
  verifiedVersion :: "64 word"
  updateVersion :: "64 word"
  logIdServerCrashed :: "EntryId option"
  logIdServerNeedsRecovery :: "EntryId option"
  logIdServerRemoveUpdate :: "EntryId option"
  logIdServerUp :: "EntryId option"
  logIdServerUpdate :: "EntryId option"
  logIdServerUpUpdate :: "EntryId option"
  logIdServerReplicationUpdate :: "EntryId option"
  logIdServerReplicationUpUpdate :: "EntryId option"

definition isMaster :: "Entry \<Rightarrow> bool" where
  "isMaster e = (status e = UP \<and> MASTER_SERVICE \<in> services e)"

definition isBackup :: "Entry \<Rightarrow> bool" where
  "isBackup e = (status e = UP \<and> BACKUP_SERVICE \<in> services e)"

section \<open>TableManager (TableManager.cc)\<close>

subsection \<open>Tablets, protocol buffers and the journal\<close>

datatype TabletStatus = NORMAL | RECOVERING

text \<open>
  A \<open>Tablet\<close> of the tablet map.  Its fields \<open>serverId\<close> and \<open>status\<close> carry the
  prefix \<open>tablet_\<close> here, the plain names being fields of \<open>Entry\<close>.  \<open>ctime\<close> is a
  \<open>Log::Position\<close>, a pair (segment id, segment offset).
\<close>

record Tablet =
  tableId :: "64 word"
  startKeyHash :: "64 word"
  endKeyHash :: "64 word"
  tablet_serverId :: ServerId
  tablet_status :: TabletStatus
  ctime :: "64 word \<times> 64 word"

record TabletInfo =
  start_key_hash :: "64 word"
  end_key_hash :: "64 word"
  master_id :: "64 word"
  ctime_log_head_id :: "64 word"
  ctime_log_head_offset :: "64 word"

text \<open>\<open>ProtoBuf::TableInformation\<close>; the field names carry the prefix \<open>ti_\<close>.\<close>

record TableInformation =
  ti_entry_type :: string
  ti_name :: string
  ti_table_id :: "64 word"
  ti_server_span :: "32 word"
  ti_tablet_info :: "TabletInfo list"

text \<open>
  The records TableManager appends to the journal: \<open>TableInformation\<close>,
  \<open>TableDrop\<close> (entry type, name), \<open>SplitTablet\<close> (entry type, name, split key hash)
  and \<open>LargestTableId\<close> (entry type, table id).
\<close>

datatype LogRecord =
  TableInformation_PB TableInformation
  | TableDrop_PB string string
  | SplitTablet_PB string string "64 word"
  | LargestTableId_PB string "64 word"

text \<open>
  Modelled from the spec: the external replicated log and its helper
  (\<open>LogCabinHelper::appendProtoBuf\<close>, \<open>invalidate\<close>) are not part of the sources.  The
  spec describes an append-only store of records with stable numeric entry ids and an
  invalidate primitive, append and invalidate being atomic as a pair when both are
  supplied.  \<open>entries\<close> lists the live (not invalidated) records in append order,
  \<open>nextEntryId\<close> is the id the next append receives.
\<close>

record LogCabin =
  entries :: "(EntryId \<times> LogRecord) list"
  nextEntryId :: EntryId

definition invalidate :: "LogCabin \<Rightarrow> EntryId list \<Rightarrow> LogCabin" where
  "invalidate lc invalidates =
     lc\<lparr>entries := filter (\<lambda>e. fst e \<notin> set invalidates) (entries lc)\<rparr>"

definition appendProtoBuf :: "LogCabin \<Rightarrow> LogRecord \<Rightarrow> EntryId list \<Rightarrow> EntryId \<times> LogCabin" where
  "appendProtoBuf lc protoBuf invalidates =
     (nextEntryId lc,
      \<lparr>entries = filter (\<lambda>e. fst e \<notin> set invalidates) (entries lc) @ [(nextEntryId lc, protoBuf)],
       nextEntryId = nextEntryId lc + 1\<rparr>)"

text \<open>
  The members of \<open>TableManager\<close>.  The tablet map \<open>map\<close> is called \<open>tabletMap\<close>;
  \<open>tablesLogIds\<close> maps a table id to its \<open>tableInfoLogId\<close>.
\<close>

record TableManager =
  logIdLargestTableId :: "EntryId option"
  tabletMap :: "Tablet list"
  nextTableId :: "64 word"
  nextTableMasterIdx :: "64 word"
  tables :: "string \<rightharpoonup> 64 word"
  tablesLogIds :: "64 word \<rightharpoonup> EntryId"

definition TableManager_init :: TableManager where
  "TableManager_init =
     \<lparr>logIdLargestTableId = None, tabletMap = [], nextTableId = 1, nextTableMasterIdx = 0,
      tables = Map.empty, tablesLogIds = Map.empty\<rparr>"

datatype error = TableExists | NoSuchTable | DivisionByZero | IndexOutOfRange

text \<open>
  How an operation ends: it returns a value, it throws (the in-memory state and the
  journal stay as they are at the throw), or the coordinator process terminates, after
  which only the journal is left.
\<close>

datatype 'a outcome =
  Returned 'a TableManager LogCabin
  | Thrown error TableManager LogCabin
  | Crashed LogCabin

text \<open>
  Modelled from the spec: \<open>RuntimeOptions::checkAndCrashCoordinator\<close> is not part of the
  sources.  The crash-injection points are deterministic markers at which a test
  harness may terminate the coordinator; \<open>rt\<close> is the marker the harness has armed
  (\<open>None\<close>: none, or no coordinator service as in test mode).
\<close>

definition checkAndCrashCoordinator :: "string option \<Rightarrow> string \<Rightarrow> bool" where
  "checkAndCrashCoordinator rt crashPoint = (rt = Some crashPoint)"

definition setTableInfoLogId :: "TableManager \<Rightarrow> 64 word \<Rightarrow> EntryId \<Rightarrow> TableManager" where
  "setTableInfoLogId tm tid entryId = tm\<lparr>tablesLogIds := (tablesLogIds tm)(tid \<mapsto> entryId)\<rparr>"

definition addTablet :: "TableManager \<Rightarrow> Tablet \<Rightarrow> TableManager" where
  "addTablet tm tablet = tm\<lparr>tabletMap := tabletMap tm @ [tablet]\<rparr>"


subsection \<open>CreateTable\<close>

text \<open>
  Modelled from the spec: \<open>CoordinatorServerList::operator[](size_t)\<close> and \<open>size()\<close> are
  declared in the header only.  The server list is a vector of slots, each optionally
  holding an entry; indexing an empty slot or past the end throws
  \<open>ServerListException\<close> (\<open>None\<close> here).
\<close>

definition csl_index :: "Entry option list \<Rightarrow> nat \<Rightarrow> Entry option" where
  "csl_index csl i = (if i < length csl then csl ! i else None)"

text \<open>
  The inner \<open>while (true)\<close> loop of \<open>CreateTable::execute\<close> that finds the next master.
  It returns the master and the advanced \<open>nextTableMasterIdx\<close>; it does not return
  (\<open>None\<close>) when no slot holds a master.  With an empty server list the modulus is a
  division by zero, which ends the process.
\<close>

partial_function (option) findMaster ::
  "Entry option list \<Rightarrow> 64 word \<Rightarrow> (error + Entry \<times> 64 word) option" where
  "findMaster csl idx =
     (if length csl = 0 then Some (Inl DivisionByZero)
      else (case csl_index csl (unat idx mod length csl) of
              None \<Rightarrow> findMaster csl (idx + 1)
            | Some entry \<Rightarrow>
                if isMaster entry then Some (Inr (entry, idx + 1))
                else findMaster csl (idx + 1)))"

text \<open>The key-hash range of tablet \<open>i\<close>; \<open>~0UL\<close> is the 64-bit word \<open>- 1\<close>.\<close>

definition firstKeyHash :: "32 word \<Rightarrow> 32 word \<Rightarrow> 64 word" where
  "firstKeyHash serverSpan i =
     (if i \<noteq> 0 then ucast i * (- 1 div ucast serverSpan) + 1
      else ucast i * (- 1 div ucast serverSpan))"

definition lastKeyHash :: "32 word \<Rightarrow> 32 word \<Rightarrow> 64 word" where
  "lastKeyHash serverSpan i =
     (if i = serverSpan - 1 then - 1
      else ucast (i + 1) * (- 1 div ucast serverSpan))"

text \<open>
  The \<open>tablet_info\<close> entry that one iteration of the loop in \<open>CreateTable::execute\<close>
  adds to \<open>state\<close>; \<open>headOfLog\<close> is \<open>(0, 0)\<close>.
\<close>

definition newTabletInfo :: "32 word \<Rightarrow> 32 word \<Rightarrow> Entry \<Rightarrow> TabletInfo" where
  "newTabletInfo serverSpan i master =
     \<lparr>start_key_hash = firstKeyHash serverSpan i,
      end_key_hash = lastKeyHash serverSpan i,
      master_id = serverId master,
      ctime_log_head_id = 0,
      ctime_log_head_offset = 0\<rparr>"

text \<open>
  The \<open>for\<close> loop of \<open>CreateTable::execute\<close> from counter \<open>i\<close> on: it threads
  \<open>nextTableMasterIdx\<close> and the \<open>tablet_info\<close> entries added to \<open>state\<close> so far.
\<close>

function createTablets ::
  "Entry option list \<Rightarrow> 32 word \<Rightarrow> 32 word \<Rightarrow> 64 word \<Rightarrow> TabletInfo list
     \<Rightarrow> (error + 64 word \<times> TabletInfo list) option" where
  "createTablets csl serverSpan i idx infos =
     (if i < serverSpan then
        (case findMaster csl idx of
           None \<Rightarrow> None
         | Some (Inl e) \<Rightarrow> Some (Inl e)
         | Some (Inr (master, idx')) \<Rightarrow>
             createTablets csl serverSpan (i + 1) idx'
               (infos @ [newTabletInfo serverSpan i master]))
      else Some (Inr (idx, infos)))"
  by pat_completeness auto
termination
  apply (relation "measure (\<lambda>(csl, serverSpan, i, idx, infos). unat serverSpan - unat i)")
   apply simp
  apply (simp add: word_less_nat_alt)
  apply unat_arith
  done

declare createTablets.simps [simp del]

text \<open>
  The loop shared by \<open>CreateTable::complete\<close> and \<open>recoverAliveTable\<close>: it adds one
  tablet-map entry per \<open>tablet_info(i)\<close>, \<open>i < serverSpan\<close>.  Both take the two
  components of \<open>headOfLog\<close> from \<open>ctime_log_head_id\<close>.  Reading \<open>tablet_info(i)\<close> past
  the end of the repeated field is undefined in the source; the model stops there with
  \<open>IndexOutOfRange\<close>.  The ownership RPCs to the masters and the assertion in
  \<open>complete\<close> leave the TableManager and the journal untouched and are not modelled.
\<close>

definition tabletOfInfo :: "64 word \<Rightarrow> TabletInfo \<Rightarrow> Tablet" where
  "tabletOfInfo tid tabletInfo =
     \<lparr>tableId = tid,
      startKeyHash = start_key_hash tabletInfo,
      endKeyHash = end_key_hash tabletInfo,
      tablet_serverId = master_id tabletInfo,
      tablet_status = NORMAL,
      ctime = (ctime_log_head_id tabletInfo, ctime_log_head_id tabletInfo)\<rparr>"

function addTablets ::
  "64 word \<Rightarrow> TabletInfo list \<Rightarrow> 32 word \<Rightarrow> 32 word \<Rightarrow> TableManager \<Rightarrow> error + TableManager" where
  "addTablets tid infos serverSpan i tm =
     (if i < serverSpan then
        (if unat i < length infos then
           addTablets tid infos serverSpan (i + 1)
             (addTablet tm (tabletOfInfo tid (infos ! unat i)))
         else Inl IndexOutOfRange)
      else Inr tm)"
  by pat_completeness auto
termination
  apply (relation "measure (\<lambda>(tid, infos, serverSpan, i, tm). unat serverSpan - unat i)")
   apply simp
  apply (simp add: word_less_nat_alt)
  apply unat_arith
  done

declare addTablets.simps [simp del]

text \<open>
  \<open>CreateTable::complete\<close>, for a CreateTable object with members \<open>name\<close>, \<open>tableId\<close>,
  \<open>serverSpan\<close> and \<open>state\<close>.
\<close>

definition CreateTable_complete ::
  "string option \<Rightarrow> TableManager \<Rightarrow> LogCabin \<Rightarrow> string \<Rightarrow> 64 word \<Rightarrow> 32 word
     \<Rightarrow> TableInformation \<Rightarrow> EntryId \<Rightarrow> (64 word) outcome" where
  "CreateTable_complete rt tm lc nm tid serverSpan state entryId =
     (let tm1 = tm\<lparr>tables := (tables tm)(nm \<mapsto> tid),
                   tablesLogIds := (tablesLogIds tm)(tid \<mapsto> entryId)\<rparr>
      in case addTablets tid (ti_tablet_info state) serverSpan 0 tm1 of
           Inl e \<Rightarrow> Thrown e tm1 lc
         | Inr tm2 \<Rightarrow>
             if checkAndCrashCoordinator rt ''create_3'' then Crashed lc
             else
               (let state' = state\<lparr>ti_entry_type := ''AliveTable''\<rparr>;
                    (newEntryId, lc') = appendProtoBuf lc (TableInformation_PB state') [entryId];
                    tm3 = setTableInfoLogId tm2 tid newEntryId
                in if checkAndCrashCoordinator rt ''create_4'' then Crashed lc'
                   else Returned tid tm3 lc'))"

text \<open>
  \<open>CreateTable::execute\<close>.  The result is \<open>None\<close> when the search for a master never
  ends.
\<close>

definition CreateTable_execute ::
  "string option \<Rightarrow> Entry option list \<Rightarrow> TableManager \<Rightarrow> LogCabin \<Rightarrow> string \<Rightarrow> 32 word
     \<Rightarrow> (64 word) outcome option" where
  "CreateTable_execute rt csl tm lc nm serverSpan0 =
     (if checkAndCrashCoordinator rt ''create_1'' then Some (Crashed lc)
      else if tables tm nm \<noteq> None then Some (Thrown TableExists tm lc)
      else
        (let tid = nextTableId tm;
             tm1 = tm\<lparr>nextTableId := nextTableId tm + 1\<rparr>;
             serverSpan = (if serverSpan0 = 0 then 1 else serverSpan0)
         in case createTablets csl serverSpan 0 (nextTableMasterIdx tm1) [] of
              None \<Rightarrow> None
            | Some (Inl e) \<Rightarrow> Some (Crashed lc)
            | Some (Inr (idx, infos)) \<Rightarrow>
                (let state = \<lparr>ti_entry_type = ''CreateTable'', ti_name = nm, ti_table_id = tid,
                              ti_server_span = serverSpan, ti_tablet_info = infos\<rparr>;
                     invalidates = (case logIdLargestTableId tm1 of None \<Rightarrow> [] | Some l \<Rightarrow> [l]);
                     tm2 = tm1\<lparr>nextTableMasterIdx := idx, logIdLargestTableId := None\<rparr>;
                     (entryId, lc1) = appendProtoBuf lc (TableInformation_PB state) invalidates;
                     tm3 = setTableInfoLogId tm2 tid entryId
                 in if checkAndCrashCoordinator rt ''create_2'' then Some (Crashed lc1)
                    else Some (CreateTable_complete rt tm3 lc1 nm tid serverSpan state entryId))))"

definition createTable ::
  "string option \<Rightarrow> Entry option list \<Rightarrow> TableManager \<Rightarrow> LogCabin \<Rightarrow> string \<Rightarrow> 32 word
     \<Rightarrow> (64 word) outcome option" where
  "createTable rt csl tm lc nm serverSpan = CreateTable_execute rt csl tm lc nm serverSpan"

subsection \<open>DropTable\<close>

text \<open>
  \<open>removeTabletsForTable\<close>: the iterator \<open>it\<close> is an index into the vector; a matching
  tablet is swapped with the last one, which is then popped.
\<close>

function removeTabletsLoop ::
  "64 word \<Rightarrow> nat \<Rightarrow> Tablet list \<Rightarrow> Tablet list \<Rightarrow> Tablet list \<times> Tablet list" where
  "removeTabletsLoop tid it m removed =
     (if it < length m then
        (if tableId (m ! it) = tid
         then removeTabletsLoop tid it (butlast (m[it := last m])) (removed @ [m ! it])
         else removeTabletsLoop tid (it + 1) m removed)
      else (removed, m))"
  by pat_completeness auto
termination
  by (relation "measure (\<lambda>(tid, it, m, removed). length m - it)") auto

declare removeTabletsLoop.simps [simp del]

definition removeTabletsForTable :: "TableManager \<Rightarrow> 64 word \<Rightarrow> Tablet list \<times> TableManager" where
  "removeTabletsForTable tm tid =
     (let (removed, m) = removeTabletsLoop tid 0 (tabletMap tm) []
      in (removed, tm\<lparr>tabletMap := m\<rparr>))"

text \<open>
  \<open>DropTable::complete\<close>.  \<open>getTableInfoLogId\<close> throws \<open>NoSuchTable\<close> when the table has
  no journal id.  The \<open>dropTabletOwnership\<close> RPCs are not modelled.
\<close>

definition DropTable_complete ::
  "string option \<Rightarrow> TableManager \<Rightarrow> LogCabin \<Rightarrow> string \<Rightarrow> EntryId \<Rightarrow> unit outcome" where
  "DropTable_complete rt tm lc nm entryId =
     (case tables tm nm of
        None \<Rightarrow> Returned () tm lc
      | Some tid \<Rightarrow>
          (let tm1 = tm\<lparr>tables := (tables tm)(nm := None)\<rparr>;
               (removed, tm2) = removeTabletsForTable tm1 tid
           in case tablesLogIds tm2 tid of
                None \<Rightarrow> Thrown NoSuchTable tm2 lc
              | Some tableInfoLogId \<Rightarrow>
                  if checkAndCrashCoordinator rt ''drop_3'' then Crashed lc
                  else
                    (let lc' =
                       (if tid = nextTableId tm2 - 1
                        then snd (appendProtoBuf lc (LargestTableId_PB ''LargestTableId'' tid)
                                    [tableInfoLogId, entryId])
                        else invalidate lc [tableInfoLogId, entryId])
                     in if checkAndCrashCoordinator rt ''drop_4'' then Crashed lc'
                        else Returned () tm2 lc')))"

definition DropTable_execute ::
  "string option \<Rightarrow> TableManager \<Rightarrow> LogCabin \<Rightarrow> string \<Rightarrow> unit outcome" where
  "DropTable_execute rt tm lc nm =
     (case tables tm nm of
        None \<Rightarrow> Returned () tm lc
      | Some tid \<Rightarrow>
          if checkAndCrashCoordinator rt ''drop_1'' then Crashed lc
          else
            (let (entryId, lc1) = appendProtoBuf lc (TableDrop_PB ''DropTable'' nm) []
             in if checkAndCrashCoordinator rt ''drop_2'' then Crashed lc1
                else DropTable_complete rt tm lc1 nm entryId))"

definition dropTable ::
  "string option \<Rightarrow> TableManager \<Rightarrow> LogCabin \<Rightarrow> string \<Rightarrow> unit outcome" where
  "dropTable rt tm lc nm = DropTable_execute rt tm lc nm"

subsection \<open>SplitTablet\<close>







subsection \<open>Recovery\<close>









section \<open>CoordinatorServerList (CoordinatorServerList.h)\<close>

text \<open>
  The header declares the data of the server list; CoordinatorServerList.cc, which
  holds the bodies of its operations, is not part of the sources.  The records and
  constants below are taken from the header.  The operations are modelled from the
  specification (sections 3, 4.1, 4.2, 4.5 and 4.6), each under a comment that says
  so.  Left out: the durability journal of the server list, locks, condition
  variables, the updater thread and the RPC transport.
\<close>

subsection \<open>Constants and records of the header\<close>

definition MAX64 :: "64 word" where
  "MAX64 = - 1"

definition UNINITIALIZED_VERSION :: "64 word" where
  "UNINITIALIZED_VERSION = 0"

definition MAX_UPDATES_PER_RPC :: "64 word" where
  "MAX_UPDATES_PER_RPC = 100"

text \<open>
  \<open>ProtoBuf::ServerList\<close>: a version number and the serialized entries
  (\<open>ServerDetails\<close>).  In an incremental update the status of an entry is the event:
  \<open>UP\<close> is an addition, \<open>CRASHED\<close> a crash, \<open>REMOVED\<close> a removal.
\<close>

record ProtoBuf_ServerList =
  version_number :: "64 word"
  server :: "ServerDetails list"

text \<open>
  \<open>ServerListUpdatePair\<close>.  The \<open>next\<close> pointer links a pair to its successor in the
  \<open>updates\<close> deque, which is a list here.
\<close>

record ServerListUpdatePair =
  version :: "64 word"
  incremental :: ProtoBuf_ServerList
  full :: ProtoBuf_ServerList

record ScanMetadata =
  noWorkFoundForEpoch :: "64 word"
  searchIndex :: nat
  minVersion :: "64 word"
  completeScansSinceStart :: "64 word"

text \<open>
  \<open>UpdaterWorkUnit\<close>.  \<open>firstUpdate\<close> points into the deque; it is the chain of pairs
  that starts there.
\<close>

record UpdaterWorkUnit =
  targetServer :: ServerId
  sendFullList :: bool
  firstUpdate :: "ServerListUpdatePair list"
  updateVersionTail :: "64 word"

text \<open>
  The members of \<open>CoordinatorServerList\<close>.  A slot of \<open>serverList\<close> is a
  \<open>GenerationNumberEntryPair\<close>: \<open>nextGenerationNumber\<close> and the optional entry.
  \<open>currentVersion\<close> is the version of the list (\<open>version\<close> in the source).  \<open>updating\<close> is
  a ghost member: the targets of the work units handed out by \<open>getWork\<close> and not yet
  reported back, that is, the servers with an update RPC in flight.
\<close>

record CoordinatorServerList =
  serverList :: "(32 word \<times> Entry option) list"
  numberOfMasters :: "32 word"
  numberOfBackups :: "32 word"
  lastScan :: ScanMetadata
  update :: "ServerDetails list"
  updates :: "ServerListUpdatePair list"
  minConfirmedVersion :: "64 word"
  numUpdatingServers :: "32 word"
  nextReplicationId :: "64 word"
  currentVersion :: "64 word"
  updating :: "ServerId set"

definition ScanMetadata_init :: ScanMetadata where
  "ScanMetadata_init =
     \<lparr>noWorkFoundForEpoch = 0, searchIndex = 0, minVersion = MAX64, completeScansSinceStart = 0\<rparr>"

text \<open>
  Modelled from the spec: the constructor of \<open>CoordinatorServerList\<close>.  The list starts
  empty; the first enlistment produces version 1, so the version counter starts at 0.
\<close>

definition CoordinatorServerList_init :: CoordinatorServerList where
  "CoordinatorServerList_init =
     \<lparr>serverList = [], numberOfMasters = 0, numberOfBackups = 0, lastScan = ScanMetadata_init,
      update = [], updates = [], minConfirmedVersion = 0, numUpdatingServers = 0,
      nextReplicationId = 1, currentVersion = 0, updating = {}\<rparr>"

subsection \<open>Server ids and entries\<close>

text \<open>
  Modelled from the spec: \<open>ServerId\<close> (ServerId.h is not part of the sources) is
  logically a pair of a 32-bit slot index and a 32-bit generation number, packed into
  the 64-bit id with the generation in the upper half.
\<close>

definition mkServerId :: "32 word \<Rightarrow> 32 word \<Rightarrow> ServerId" where
  "mkServerId index generation = push_bit 32 (ucast generation) OR ucast index"

definition indexNumber :: "ServerId \<Rightarrow> 32 word" where
  "indexNumber sid = ucast sid"

definition generationNumber :: "ServerId \<Rightarrow> 32 word" where
  "generationNumber sid = ucast (drop_bit 32 sid)"

text \<open>
  Modelled from the spec: the constructor \<open>Entry(serverId, serviceLocator, services)\<close>.
  A new entry is \<open>UP\<close>, belongs to no replication group and needs no recovery; both
  version fields start at \<open>UNINITIALIZED_VERSION\<close>, and every journal handle is
  \<open>NO_ID\<close>.
\<close>

definition Entry_new :: "ServerId \<Rightarrow> string \<Rightarrow> Service set \<Rightarrow> Entry" where
  "Entry_new sid locator serviceMask =
     \<lparr>serverId = sid, serviceLocator = locator, services = serviceMask,
      expectedReadMBytesPerSec = 0, status = UP, replicationId = 0,
      masterRecoveryInfo = [], needsRecovery = False,
      verifiedVersion = UNINITIALIZED_VERSION, updateVersion = UNINITIALIZED_VERSION,
      logIdServerCrashed = None, logIdServerNeedsRecovery = None,
      logIdServerRemoveUpdate = None, logIdServerUp = None, logIdServerUpdate = None,
      logIdServerUpUpdate = None, logIdServerReplicationUpdate = None,
      logIdServerReplicationUpUpdate = None\<rparr>"

text \<open>Modelled from the spec: \<open>Entry::serialize\<close>, the part of an entry that is published.\<close>

definition serializeEntry :: "Entry \<Rightarrow> ServerDetails" where
  "serializeEntry e =
     \<lparr>serverId = serverId e, serviceLocator = serviceLocator e, services = services e,
      expectedReadMBytesPerSec = expectedReadMBytesPerSec e, status = status e,
      replicationId = replicationId e\<rparr>"

text \<open>
  Modelled from the spec: \<open>getEntry(ServerId)\<close>.  The entry of a server sits in the slot
  of its index; a stale id (other generation) does not match the slot.
\<close>

definition getEntry :: "CoordinatorServerList \<Rightarrow> ServerId \<Rightarrow> Entry option" where
  "getEntry csl sid =
     (if unat (indexNumber sid) < length (serverList csl) then
        (case snd (serverList csl ! unat (indexNumber sid)) of
           None \<Rightarrow> None
         | Some e \<Rightarrow> if serverId e = sid then Some e else None)
      else None)"

text \<open>Storing an entry into slot \<open>index\<close>; the generation number of the slot stays.\<close>

definition putEntry :: "CoordinatorServerList \<Rightarrow> nat \<Rightarrow> Entry \<Rightarrow> CoordinatorServerList" where
  "putEntry csl index e =
     csl\<lparr>serverList := (serverList csl)[index := (fst (serverList csl ! index), Some e)]\<rparr>"

subsection \<open>Identity allocation (spec 4.1)\<close>

text \<open>
  Modelled from the spec: \<open>firstFreeIndex\<close> and \<open>generateUniqueId\<close>.  The allocator finds
  the first empty slot, growing the vector if none is free, and emits the id made of
  that index and the slot's \<open>nextGenerationNumber\<close>.  Slot 0 is never used, the
  zero-valued id being reserved as invalid.
\<close>

fun firstFreeFrom :: "(32 word \<times> Entry option) list \<Rightarrow> nat \<Rightarrow> nat" where
  "firstFreeFrom [] index = index"
| "firstFreeFrom (pair # rest) index =
     (if snd pair = None then index else firstFreeFrom rest (index + 1))"

definition firstFreeIndex :: "CoordinatorServerList \<Rightarrow> nat" where
  "firstFreeIndex csl = firstFreeFrom (drop 1 (serverList csl)) 1"

definition generateUniqueId :: "CoordinatorServerList \<Rightarrow> ServerId \<times> CoordinatorServerList" where
  "generateUniqueId csl =
     (let index = firstFreeIndex csl;
          slots = serverList csl @ replicate (index + 1 - length (serverList csl)) (0, None)
      in (mkServerId (of_nat index) (fst (slots ! index)), csl\<lparr>serverList := slots\<rparr>))"

subsection \<open>Membership map (spec 4.2)\<close>

text \<open>
  Modelled from the spec: \<open>add\<close> installs an entry at \<open>UP\<close> in the slot of its id, keeps
  the master and backup counts in sync and stages the addition in \<open>update\<close>.
\<close>

definition add ::
  "CoordinatorServerList \<Rightarrow> ServerId \<Rightarrow> string \<Rightarrow> Service set \<Rightarrow> 32 word \<Rightarrow> CoordinatorServerList" where
  "add csl sid locator serviceMask readSpeed =
     (let e = (Entry_new sid locator serviceMask)\<lparr>expectedReadMBytesPerSec := readSpeed\<rparr>;
          csl1 = putEntry csl (unat (indexNumber sid)) e
      in csl1\<lparr>numberOfMasters := numberOfMasters csl1 + (if isMaster e then 1 else 0),
              numberOfBackups := numberOfBackups csl1 + (if isBackup e then 1 else 0),
              update := update csl1 @ [serializeEntry e]\<rparr>)"

text \<open>
  Modelled from the spec: \<open>crashed\<close> moves an \<open>UP\<close> entry to \<open>CRASHED\<close>, decrements the
  counts where applicable and stages the crash in \<open>update\<close>.  Other ids leave the list
  as it is.
\<close>

definition crashed :: "CoordinatorServerList \<Rightarrow> ServerId \<Rightarrow> CoordinatorServerList" where
  "crashed csl sid =
     (case getEntry csl sid of
        None \<Rightarrow> csl
      | Some e \<Rightarrow>
          if status e \<noteq> UP then csl
          else
            (let e' = e\<lparr>status := CRASHED\<rparr>;
                 csl1 = putEntry csl (unat (indexNumber sid)) e'
             in csl1\<lparr>numberOfMasters := numberOfMasters csl1 - (if isMaster e then 1 else 0),
                     numberOfBackups := numberOfBackups csl1 - (if isBackup e then 1 else 0),
                     update := update csl1 @ [serializeEntry e']\<rparr>))"

text \<open>
  Modelled from the spec: \<open>serialize\<close>, the full snapshot of the list: the entries of
  all occupied slots, in slot order.
\<close>

definition serialize :: "CoordinatorServerList \<Rightarrow> ServerDetails list" where
  "serialize csl =
     concat (map (\<lambda>pair. case snd pair of None \<Rightarrow> [] | Some e \<Rightarrow> [serializeEntry e])
               (serverList csl))"

text \<open>
  Modelled from the spec: \<open>pushUpdate\<close> publishes the staged update atomically: the
  incremental is sealed, the version is incremented, the full snapshot is computed, the
  pair is appended to the deque, and \<open>update\<close> is cleared.
\<close>

definition pushUpdate :: "CoordinatorServerList \<Rightarrow> CoordinatorServerList" where
  "pushUpdate csl =
     (let v = currentVersion csl + 1
      in csl\<lparr>currentVersion := v,
             updates := updates csl @
               [\<lparr>version = v,
                 incremental = \<lparr>version_number = v, server = update csl\<rparr>,
                 full = \<lparr>version_number = v, server = serialize csl\<rparr>\<rparr>],
             update := []\<rparr>)"

text \<open>
  Modelled from the spec: \<open>enlistServer\<close> (rules of spec 4.5).  If \<open>replacesId\<close> names an
  \<open>UP\<close> entry, that server is first marked crashed, in the same batch; then a new id is
  allocated, the entry is added, and the update is published.
\<close>

definition enlistServer ::
  "CoordinatorServerList \<Rightarrow> ServerId \<Rightarrow> Service set \<Rightarrow> 32 word \<Rightarrow> string
     \<Rightarrow> ServerId \<times> CoordinatorServerList" where
  "enlistServer csl replacesId serviceMask readSpeed locator =
     (let csl1 = (case getEntry csl replacesId of
                    None \<Rightarrow> csl
                  | Some e \<Rightarrow> if status e = UP then crashed csl replacesId else csl);
          (newServerId, csl2) = generateUniqueId csl1
      in (newServerId, pushUpdate (add csl2 newServerId locator serviceMask readSpeed)))"

text \<open>Modelled from the spec: \<open>serverCrashed\<close> marks an \<open>UP\<close> server crashed and publishes.\<close>

definition serverCrashed :: "CoordinatorServerList \<Rightarrow> ServerId \<Rightarrow> CoordinatorServerList" where
  "serverCrashed csl sid =
     (case getEntry csl sid of
        None \<Rightarrow> csl
      | Some e \<Rightarrow> if status e = UP then pushUpdate (crashed csl sid) else csl)"

text \<open>
  Modelled from the spec: \<open>recoveryCompleted\<close> is allowed only for a \<open>CRASHED\<close> entry; it
  stages the removal and publishes it.  The entry stays in its slot, as \<open>REMOVED\<close>,
  until the removal is confirmed (\<open>releaseSlot\<close>).
\<close>

definition recoveryCompleted :: "CoordinatorServerList \<Rightarrow> ServerId \<Rightarrow> CoordinatorServerList" where
  "recoveryCompleted csl sid =
     (case getEntry csl sid of
        None \<Rightarrow> csl
      | Some e \<Rightarrow>
          if status e \<noteq> CRASHED then csl
          else
            (let e' = e\<lparr>status := REMOVED\<rparr>;
                 csl1 = putEntry csl (unat (indexNumber sid)) e'
             in pushUpdate (csl1\<lparr>update := update csl1 @ [serializeEntry e']\<rparr>)))"

text \<open>
  Modelled from the spec: the confirmation step that releases the slot of a removed
  server once no pair of the deque carries its removal any more (pruned pairs are
  confirmed by the whole cluster): the entry is cleared and \<open>nextGenerationNumber\<close> is
  incremented.
\<close>

definition releaseSlot :: "CoordinatorServerList \<Rightarrow> ServerId \<Rightarrow> CoordinatorServerList" where
  "releaseSlot csl sid =
     (case getEntry csl sid of
        None \<Rightarrow> csl
      | Some e \<Rightarrow>
          if status e = REMOVED \<and>
             (\<forall>p \<in> set (updates csl). \<forall>d \<in> set (server (incremental p)).
                 \<not> (serverId d = sid \<and> status d = REMOVED))
          then csl\<lparr>serverList := (serverList csl)
                 [unat (indexNumber sid) := (fst (serverList csl ! unat (indexNumber sid)) + 1, None)]\<rparr>
          else csl)"

text \<open>
  Modelled from the spec: \<open>setMasterRecoveryInfo\<close> replaces the opaque recovery blob; it
  is not published.
\<close>

definition setMasterRecoveryInfo ::
  "CoordinatorServerList \<Rightarrow> ServerId \<Rightarrow> string \<Rightarrow> bool \<times> CoordinatorServerList" where
  "setMasterRecoveryInfo csl sid recoveryInfo =
     (case getEntry csl sid of
        None \<Rightarrow> (False, csl)
      | Some e \<Rightarrow> (True, putEntry csl (unat (indexNumber sid)) (e\<lparr>masterRecoveryInfo := recoveryInfo\<rparr>)))"

text \<open>
  Modelled from the spec: \<open>assignReplicationGroup\<close> sets the replication id of the given
  servers, all of which must be \<open>UP\<close>, and stages each of them in \<open>update\<close>; the choice of
  the three backups of a group is left to the caller.  \<open>replicationGroupChange\<close> is a
  change of groups as \<open>createReplicationGroup\<close> and \<open>removeReplicationGroup\<close> perform
  it: an assignment followed, on success, by the publication.
\<close>

fun setReplicationIds ::
  "CoordinatorServerList \<Rightarrow> 64 word \<Rightarrow> ServerId list \<Rightarrow> CoordinatorServerList" where
  "setReplicationIds csl rid [] = csl"
| "setReplicationIds csl rid (sid # rest) =
     (case getEntry csl sid of
        None \<Rightarrow> setReplicationIds csl rid rest
      | Some e \<Rightarrow>
          (let e' = e\<lparr>replicationId := rid\<rparr>;
               csl1 = putEntry csl (unat (indexNumber sid)) e'
           in setReplicationIds (csl1\<lparr>update := update csl1 @ [serializeEntry e']\<rparr>) rid rest))"

definition assignReplicationGroup ::
  "CoordinatorServerList \<Rightarrow> 64 word \<Rightarrow> ServerId list \<Rightarrow> bool \<times> CoordinatorServerList" where
  "assignReplicationGroup csl rid replicationGroupIds =
     (if \<forall>sid \<in> set replicationGroupIds.
           (case getEntry csl sid of None \<Rightarrow> False | Some e \<Rightarrow> status e = UP)
      then (True, setReplicationIds csl rid replicationGroupIds)
      else (False, csl))"

definition replicationGroupChange ::
  "CoordinatorServerList \<Rightarrow> 64 word \<Rightarrow> ServerId list \<Rightarrow> CoordinatorServerList" where
  "replicationGroupChange csl rid replicationGroupIds =
     (case assignReplicationGroup csl rid replicationGroupIds of
        (True, csl1) \<Rightarrow> pushUpdate csl1
      | (False, csl1) \<Rightarrow> csl1)"

subsection \<open>Update propagator (spec 4.6)\<close>

text \<open>An entry that takes part in the propagation: \<open>UP\<close> or \<open>CRASHED\<close>, with the membership service.\<close>

definition acceptsUpdates :: "Entry \<Rightarrow> bool" where
  "acceptsUpdates e = ((status e = UP \<or> status e = CRASHED) \<and> MEMBERSHIP_SERVICE \<in> services e)"

text \<open>
  Modelled from the spec: the work unit \<open>getWork\<close> builds for an entry.  A server whose
  \<open>verifiedVersion\<close> is \<open>UNINITIALIZED_VERSION\<close> is sent the full snapshot at the latest
  available version.  Any other server is sent incrementals, starting at the pair
  immediately after its \<open>verifiedVersion\<close> (the first pair of the deque with a greater
  version), contiguous in the deque, at most \<open>MAX_UPDATES_PER_RPC\<close> of them;
  \<open>updateVersionTail\<close> is the last included version.  The spec does not say what happens
  when the deque holds no such pair; the model builds no unit then.
\<close>

definition updateBatch :: "UpdaterWorkUnit \<Rightarrow> ServerListUpdatePair list" where
  "updateBatch wu = takeWhile (\<lambda>p. version p \<le> updateVersionTail wu) (firstUpdate wu)"

definition makeWorkUnit :: "CoordinatorServerList \<Rightarrow> Entry \<Rightarrow> UpdaterWorkUnit option" where
  "makeWorkUnit csl e =
     (if verifiedVersion e = UNINITIALIZED_VERSION then
        (if updates csl = [] then None
         else Some \<lparr>targetServer = serverId e, sendFullList = True,
                    firstUpdate = [last (updates csl)],
                    updateVersionTail = version (last (updates csl))\<rparr>)
      else
        (let first = dropWhile (\<lambda>p. version p \<le> verifiedVersion e) (updates csl)
         in if first = [] then None
            else Some \<lparr>targetServer = serverId e, sendFullList = False,
                       firstUpdate = first,
                       updateVersionTail =
                         version (last (take (unat MAX_UPDATES_PER_RPC) first))\<rparr>))"

text \<open>
  Modelled from the spec: the scan of \<open>getWork\<close>, with \<open>n\<close> slots left to visit and \<open>i\<close> the
  slot to visit next.  Entries that do not take part, are being updated
  (\<open>updateVersion > verifiedVersion\<close>) or are current are skipped; the first other entry
  yields a work unit, and its \<open>updateVersion\<close> is set to \<open>updateVersionTail\<close> at once.  The
  scan tracks the minimum \<open>verifiedVersion\<close> it has seen; when it has visited every slot
  without finding work it stores that minimum (or the current version, if no entry
  takes part) into \<open>minConfirmedVersion\<close> and records \<open>noWorkFoundForEpoch\<close>.
\<close>

fun scanServerList ::
  "nat \<Rightarrow> nat \<Rightarrow> CoordinatorServerList \<Rightarrow> UpdaterWorkUnit option \<times> CoordinatorServerList" where
  "scanServerList 0 i csl =
     (None,
      csl\<lparr>minConfirmedVersion :=
             (if minVersion (lastScan csl) = MAX64 then currentVersion csl
              else minVersion (lastScan csl)),
          lastScan := (lastScan csl)
             \<lparr>noWorkFoundForEpoch := currentVersion csl, searchIndex := i, minVersion := MAX64,
              completeScansSinceStart := completeScansSinceStart (lastScan csl) + 1\<rparr>\<rparr>)"
| "scanServerList (Suc n) i csl =
     (case snd (serverList csl ! i) of
        None \<Rightarrow> scanServerList n ((i + 1) mod length (serverList csl)) csl
      | Some e \<Rightarrow>
          if \<not> acceptsUpdates e then scanServerList n ((i + 1) mod length (serverList csl)) csl
          else
            (let csl1 = csl\<lparr>lastScan := (lastScan csl)
                          \<lparr>minVersion := min (minVersion (lastScan csl)) (verifiedVersion e)\<rparr>\<rparr>
             in if verifiedVersion e < updateVersion e
                then scanServerList n ((i + 1) mod length (serverList csl)) csl1
                else if verifiedVersion e = currentVersion csl
                then scanServerList n ((i + 1) mod length (serverList csl)) csl1
                else
                  (case makeWorkUnit csl1 e of
                     None \<Rightarrow> scanServerList n ((i + 1) mod length (serverList csl)) csl1
                   | Some wu \<Rightarrow>
                       (Some wu,
                        (putEntry csl1 i (e\<lparr>updateVersion := updateVersionTail wu\<rparr>))
                          \<lparr>lastScan := (lastScan csl1)
                              \<lparr>noWorkFoundForEpoch := 0,
                               searchIndex := (i + 1) mod length (serverList csl)\<rparr>,
                           numUpdatingServers := numUpdatingServers csl1 + 1,
                           updating := insert (serverId e) (updating csl1)\<rparr>))))"

definition getWork :: "CoordinatorServerList \<Rightarrow> UpdaterWorkUnit option \<times> CoordinatorServerList" where
  "getWork csl =
     (if serverList csl = [] then (None, csl)
      else scanServerList (length (serverList csl))
             (searchIndex (lastScan csl) mod length (serverList csl)) csl)"

text \<open>
  Modelled from the spec: \<open>pruneUpdates\<close> drops pairs from the front of the deque while
  their version is at most \<open>minConfirmedVersion\<close>.
\<close>

definition pruneUpdates :: "CoordinatorServerList \<Rightarrow> CoordinatorServerList" where
  "pruneUpdates csl =
     csl\<lparr>updates := dropWhile (\<lambda>p. version p \<le> minConfirmedVersion csl) (updates csl)\<rparr>"

text \<open>
  Modelled from the spec: the minimum \<open>verifiedVersion\<close> of the entries that take part in
  the propagation, or the current version if there is none.
\<close>

definition computeMinConfirmed :: "CoordinatorServerList \<Rightarrow> 64 word" where
  "computeMinConfirmed csl =
     fold (\<lambda>pair m. case snd pair of
                      None \<Rightarrow> m
                    | Some e \<Rightarrow> if acceptsUpdates e then min m (verifiedVersion e) else m)
       (serverList csl)
       (if \<exists>pair \<in> set (serverList csl).
             (case snd pair of None \<Rightarrow> False | Some e \<Rightarrow> acceptsUpdates e)
        then MAX64 else currentVersion csl)"

text \<open>
  Modelled from the spec: the report of a work unit ends the update in flight for its
  target (one updating server less).
\<close>

definition workDone :: "CoordinatorServerList \<Rightarrow> ServerId \<Rightarrow> CoordinatorServerList" where
  "workDone csl sid =
     csl\<lparr>numUpdatingServers :=
            (if numUpdatingServers csl = 0 then 0 else numUpdatingServers csl - 1),
         updating := updating csl - {sid}\<rparr>"

text \<open>
  Modelled from the spec: \<open>workSuccess\<close> is the commit phase: it sets
  \<open>verifiedVersion = updateVersion\<close>, recomputes \<open>minConfirmedVersion\<close> and prunes the deque.
\<close>

definition workSuccess :: "CoordinatorServerList \<Rightarrow> ServerId \<Rightarrow> CoordinatorServerList" where
  "workSuccess csl sid =
     (case getEntry csl sid of
        None \<Rightarrow> workDone csl sid
      | Some e \<Rightarrow>
          (let csl1 = putEntry (workDone csl sid) (unat (indexNumber sid))
                        (e\<lparr>verifiedVersion := updateVersion e\<rparr>)
           in pruneUpdates (csl1\<lparr>minConfirmedVersion := computeMinConfirmed csl1\<rparr>)))"

text \<open>
  Modelled from the spec: \<open>workFailed\<close> is the rollback phase: it sets
  \<open>updateVersion = verifiedVersion\<close>; the next scan retries.
\<close>

definition workFailed :: "CoordinatorServerList \<Rightarrow> ServerId \<Rightarrow> CoordinatorServerList" where
  "workFailed csl sid =
     (case getEntry csl sid of
        None \<Rightarrow> workDone csl sid
      | Some e \<Rightarrow>
          putEntry (workDone csl sid) (unat (indexNumber sid))
            (e\<lparr>updateVersion := verifiedVersion e\<rparr>))"

subsection \<open>The operations as a transition system\<close>

datatype Operation =
  EnlistServer ServerId "Service set" "32 word" string
  | ServerCrashed ServerId
  | RecoveryCompleted ServerId
  | ReleaseSlot ServerId
  | SetMasterRecoveryInfo ServerId string
  | ReplicationGroupChange "64 word" "ServerId list"
  | GetWork
  | WorkSuccess ServerId
  | WorkFailed ServerId

fun step :: "CoordinatorServerList \<Rightarrow> Operation \<Rightarrow> CoordinatorServerList" where
  "step csl (EnlistServer replacesId serviceMask readSpeed locator) =
     snd (enlistServer csl replacesId serviceMask readSpeed locator)"
| "step csl (ServerCrashed sid) = serverCrashed csl sid"
| "step csl (RecoveryCompleted sid) = recoveryCompleted csl sid"
| "step csl (ReleaseSlot sid) = releaseSlot csl sid"
| "step csl (SetMasterRecoveryInfo sid recoveryInfo) = snd (setMasterRecoveryInfo csl sid recoveryInfo)"
| "step csl (ReplicationGroupChange rid replicationGroupIds) =
     replicationGroupChange csl rid replicationGroupIds"
| "step csl GetWork = snd (getWork csl)"
| "step csl (WorkSuccess sid) = workSuccess csl sid"
| "step csl (WorkFailed sid) = workFailed csl sid"

text \<open>
  The counters of the source are fixed-width.  The spec calls the version counter
  strictly increasing and leaves the overflow of generation numbers open, so an
  operation is considered only where it does not wrap a counter: a publishing
  operation needs a version below \<open>MAX64\<close>, an enlistment a free slot index that fits 32
  bits, and the release of a slot a generation number below its maximum.
\<close>

fun withinBounds :: "CoordinatorServerList \<Rightarrow> Operation \<Rightarrow> bool" where
  "withinBounds csl (EnlistServer replacesId serviceMask readSpeed locator) =
     (currentVersion csl \<noteq> MAX64 \<and> firstFreeIndex csl < 2 ^ 32)"
| "withinBounds csl (ServerCrashed sid) = (currentVersion csl \<noteq> MAX64)"
| "withinBounds csl (RecoveryCompleted sid) = (currentVersion csl \<noteq> MAX64)"
| "withinBounds csl (ReplicationGroupChange rid replicationGroupIds) = (currentVersion csl \<noteq> MAX64)"
| "withinBounds csl (ReleaseSlot sid) =
     (unat (indexNumber sid) < length (serverList csl) \<longrightarrow>
        fst (serverList csl ! unat (indexNumber sid)) \<noteq> - 1)"
| "withinBounds csl op = True"

inductive reachable :: "CoordinatorServerList \<Rightarrow> bool" where
  reachable_init: "reachable CoordinatorServerList_init"
| reachable_step: "reachable csl \<Longrightarrow> withinBounds csl op \<Longrightarrow> reachable (step csl op)"


text \<open>
  In an incremental, removals and crashes precede additions: no entry with status
  \<open>UP\<close> stands before an entry with another status.
\<close>

fun removalsFirst :: "ServerDetails list \<Rightarrow> bool" where
  "removalsFirst [] = True"
| "removalsFirst (d # ds) =
     ((status d = UP \<longrightarrow> (\<forall>d' \<in> set ds. status d' = UP)) \<and> removalsFirst ds)"

subsection \<open>Auxiliary notions for the statements\<close>

text \<open>Slot \<open>p\<close> of the server list holds a master.\<close>

definition masterAt :: "Entry option list \<Rightarrow> nat \<Rightarrow> bool" where
  "masterAt csl p = (case csl_index csl p of None \<Rightarrow> False | Some e \<Rightarrow> isMaster e)"

text \<open>A master entry and an empty journal, used to instantiate statements.\<close>

definition exampleMaster :: Entry where
  "exampleMaster =
     \<lparr>serverId = 1, serviceLocator = ''tcp:1'', services = {MASTER_SERVICE, MEMBERSHIP_SERVICE},
      expectedReadMBytesPerSec = 100, status = UP, replicationId = 0,
      masterRecoveryInfo = [], needsRecovery = False,
      verifiedVersion = 0, updateVersion = 0,
      logIdServerCrashed = None, logIdServerNeedsRecovery = None,
      logIdServerRemoveUpdate = None, logIdServerUp = None, logIdServerUpdate = None,
      logIdServerUpUpdate = None, logIdServerReplicationUpdate = None,
      logIdServerReplicationUpUpdate = None\<rparr>"

definition emptyLog :: LogCabin where
  "emptyLog = \<lparr>entries = [], nextEntryId = 0\<rparr>"

text \<open>Key hash \<open>h\<close> lies in the range of a tablet.\<close>

definition inTablet :: "64 word \<Rightarrow> Tablet \<Rightarrow> bool" where
  "inTablet h tablet = (startKeyHash tablet \<le> h \<and> h \<le> endKeyHash tablet)"







text \<open>
  The invariant of one slot of the list: the versions of its entry are ordered and bounded by the
  current version, they differ exactly when the entry's server has an RPC in flight, and the id
  of the entry names the slot it is stored in.
\<close>

definition slotOk :: "64 word \<Rightarrow> ServerId set \<Rightarrow> nat \<Rightarrow> 32 word \<times> Entry option \<Rightarrow> bool" where
  "slotOk cur upd i slot =
     (case snd slot of
        None \<Rightarrow> True
      | Some e \<Rightarrow>
          verifiedVersion e \<le> updateVersion e \<and> updateVersion e \<le> cur \<and>
          (verifiedVersion e = updateVersion e) = (serverId e \<notin> upd) \<and>
          unat (indexNumber (serverId e)) = i \<and> generationNumber (serverId e) = fst slot)"

text \<open>
  A server with an RPC in flight is either still the occupant of its slot or belongs to a
  generation of the slot that has been released.
\<close>

definition updatingOk :: "(32 word \<times> Entry option) list \<Rightarrow> ServerId \<Rightarrow> bool" where
  "updatingOk slots sid =
     (unat (indexNumber sid) < length slots \<and>
      (case snd (slots ! unat (indexNumber sid)) of
         None \<Rightarrow> generationNumber sid < fst (slots ! unat (indexNumber sid))
       | Some e \<Rightarrow> serverId e = sid \<or> generationNumber sid < fst (slots ! unat (indexNumber sid))))"

text \<open>The retained updates carry strictly increasing, published versions.\<close>

definition dequeOk :: "64 word \<Rightarrow> ServerListUpdatePair list \<Rightarrow> bool" where
  "dequeOk cur ups =
     (sorted_wrt (<) (map version ups) \<and> (\<forall>p \<in> set ups. 0 < version p \<and> version p \<le> cur))"

text \<open>The invariant of the whole list.\<close>

definition listInvariant :: "CoordinatorServerList \<Rightarrow> bool" where
  "listInvariant csl =
     ((\<forall>i < length (serverList csl).
         slotOk (currentVersion csl) (updating csl) i (serverList csl ! i)) \<and>
      dequeOk (currentVersion csl) (updates csl) \<and>
      (\<forall>sid \<in> updating csl. updatingOk (serverList csl) sid))"

text \<open>
  A list with one enlisted master (server id 1), the same list with the first update RPC to it
  in flight, and the entry of that master.
\<close>

definition exampleEnlisted :: CoordinatorServerList where
  "exampleEnlisted =
     step CoordinatorServerList_init
       (EnlistServer 0 {MASTER_SERVICE, MEMBERSHIP_SERVICE} 100 ''tcp:1'')"

definition exampleInFlight :: CoordinatorServerList where
  "exampleInFlight = step exampleEnlisted GetWork"

definition exampleEntry :: Entry where
  "exampleEntry = (Entry_new 1 ''tcp:1'' {MASTER_SERVICE, MEMBERSHIP_SERVICE})
                     \<lparr>expectedReadMBytesPerSec := 100\<rparr>"

text \<open>
  Between two operations nothing is staged, and every published incremental lists its removals
  and crashes first.
\<close>

definition publishedOrdered :: "CoordinatorServerList \<Rightarrow> bool" where
  "publishedOrdered csl =
     (update csl = [] \<and> (\<forall>p \<in> set (updates csl). removalsFirst (server (incremental p))))"
section \<open>Properties of the TableManager\<close>

subsection \<open>The search for a master returns when some slot holds one\<close>

lemma findMaster_reach:
  "masterAt csl (unat (idx + of_nat k) mod length csl) \<Longrightarrow> csl \<noteq> [] \<Longrightarrow>
     \<exists>m idx'. findMaster csl idx = Some (Inr (m, idx')) \<and> isMaster m"
proof (induction k arbitrary: idx)
  case 0
  then show ?case
    by (subst findMaster.simps) (auto simp: masterAt_def split: option.splits)
next
  case (Suc k)
  have "idx + of_nat (Suc k) = (idx + 1) + of_nat k" by simp
  with Suc.prems have "masterAt csl (unat ((idx + 1) + of_nat k) mod length csl)"
    by (simp add: add.assoc)
  from Suc.IH[OF this Suc.prems(2)] obtain m idx' where
    r: "findMaster csl (idx + 1) = Some (Inr (m, idx'))" "isMaster m" by blast
  show ?case
    by (subst findMaster.simps) (use r Suc.prems in \<open>auto split: option.splits\<close>)
qed

lemma findMaster_total:
  assumes "masterAt csl p" "p < 2 ^ 64"
  shows "\<exists>m idx'. findMaster csl idx = Some (Inr (m, idx')) \<and> isMaster m"
proof -
  from assms(1) have pl: "p < length csl" and ne: "csl \<noteq> []"
    by (auto simp: masterAt_def csl_index_def split: if_splits)
  define k where "k = unat (of_nat p - idx :: 64 word)"
  have "idx + of_nat k = (of_nat p :: 64 word)" by (simp add: k_def)
  moreover have "unat (of_nat p :: 64 word) = p"
    using assms(2) by (simp add: unat_of_nat)
  ultimately have "masterAt csl (unat (idx + of_nat k) mod length csl)"
    using assms(1) pl by simp
  from findMaster_reach[OF this ne] show ?thesis .
qed

subsection \<open>The two loops over the tablets of a new table\<close>

lemma createTablets_ok:
  "\<forall>idx. \<exists>m idx'. findMaster csl idx = Some (Inr (m, idx')) \<and> isMaster m \<Longrightarrow>
   \<exists>idx' masters.
           createTablets csl serverSpan i idx infos =
             Some (Inr (idx', infos @ map (\<lambda>(j, m). newTabletInfo serverSpan (of_nat j) m)
                                        (zip [unat i..<unat serverSpan] masters))) \<and>
           length masters = unat serverSpan - unat i \<and> (\<forall>m \<in> set masters. isMaster m)"
proof (induction csl serverSpan i idx infos rule: createTablets.induct)
  case (1 csl serverSpan i idx infos)
  show ?case
  proof (cases "i < serverSpan")
    case False
    then have "unat serverSpan - unat i = 0" by (simp add: word_less_nat_alt)
    then show ?thesis using False by (subst createTablets.simps) simp
  next
    case True
    from "1.prems" obtain m idx1 where f: "findMaster csl idx = Some (Inr (m, idx1))" and im: "isMaster m"
      by blast
    from "1.IH"[OF True f refl refl "1.prems"] obtain idx' masters where
      r: "createTablets csl serverSpan (i + 1) idx1 (infos @ [newTabletInfo serverSpan i m]) =
            Some (Inr (idx', (infos @ [newTabletInfo serverSpan i m]) @
                    map (\<lambda>(j, m). newTabletInfo serverSpan (of_nat j) m)
                      (zip [unat (i + 1)..<unat serverSpan] masters)))"
      and l: "length masters = unat serverSpan - unat (i + 1)"
      and a: "\<forall>m \<in> set masters. isMaster m" by blast
    from True have u: "unat (i + 1) = Suc (unat i)" and lt: "unat i < unat serverSpan"
      by unat_arith+
    have upt: "[unat i..<unat serverSpan] = unat i # [unat (i + 1)..<unat serverSpan]"
      using lt u by (simp add: upt_conv_Cons)
    have "createTablets csl serverSpan i idx infos =
            Some (Inr (idx', infos @ map (\<lambda>(j, m). newTabletInfo serverSpan (of_nat j) m)
                                        (zip [unat i..<unat serverSpan] (m # masters))))"
      by (subst createTablets.simps) (simp add: True f r upt)
    moreover have "length (m # masters) = unat serverSpan - unat i" using l u lt by simp
    moreover have "\<forall>x \<in> set (m # masters). isMaster x" using a im by simp
    ultimately show ?thesis by blast
  qed
qed

lemma addTablets_ok:
  "unat serverSpan \<le> length infos \<Longrightarrow>
   addTablets tid infos serverSpan i tm =
     Inr (tm\<lparr>tabletMap := tabletMap tm @
               map (tabletOfInfo tid) (drop (unat i) (take (unat serverSpan) infos))\<rparr>)"
proof (induction tid infos serverSpan i tm rule: addTablets.induct)
  case (1 tid infos serverSpan i tm)
  show ?case
  proof (cases "i < serverSpan")
    case False
    then have "unat serverSpan \<le> unat i" by (simp add: word_less_nat_alt)
    then show ?thesis using False by (subst addTablets.simps) simp
  next
    case True
    from True have u: "unat (i + 1) = Suc (unat i)" and lt: "unat i < unat serverSpan"
      by unat_arith+
    from lt "1.prems" have li: "unat i < length infos" by simp
    have d: "drop (unat i) (take (unat serverSpan) infos) =
               infos ! unat i # drop (unat (i + 1)) (take (unat serverSpan) infos)"
      using lt li by (simp add: u Cons_nth_drop_Suc[symmetric])
    note ih = "1.IH"[OF True li "1.prems"]
    show ?thesis
      apply (subst addTablets.simps)
      apply (simp only: True li if_True ih)
      apply (simp add: addTablet_def d)
      done
  qed
qed

subsection \<open>Key-hash arithmetic\<close>

lemma unat_32_bound: "unat (x :: 32 word) < 2 ^ 32"
  using unsigned_less[of x, where 'a = nat] by simp

lemma unat_ucast_32_64: "unat (ucast (x :: 32 word) :: 64 word) = unat x"
proof -
  have "unat x < 2 ^ 64" using unat_32_bound[of x] by simp
  then show ?thesis by (simp add: unsigned_ucast_eq take_bit_nat_eq_self)
qed

lemma unat_max_64: "unat (- 1 :: 64 word) = 2 ^ 64 - 1"
  by (simp add: unsigned_minus_1_eq_mask mask_eq_exp_minus_1)

lemma unat_span_quot:
  "unat (- 1 div ucast (serverSpan :: 32 word) :: 64 word) = (2 ^ 64 - 1) div unat serverSpan"
proof -
  have "unat (ucast serverSpan :: 64 word) = unat serverSpan"
    by (rule unat_ucast_32_64)
  moreover have "unat (- 1 :: 64 word) = 2 ^ 64 - 1"
    by (rule unat_max_64)
  ultimately show ?thesis by (simp only: unat_div)
qed

lemma span_quot_bounds:
  fixes serverSpan :: "32 word"
  assumes "n = unat serverSpan" "0 < n"
  shows "1 \<le> (2 ^ 64 - 1) div n" and "n * ((2 ^ 64 - 1) div n) \<le> (2::nat) ^ 64 - 1"
proof -
  have "n < 2 ^ 32" using assms(1) unat_32_bound[of serverSpan] by simp
  then have "n \<le> (2::nat) ^ 64 - 1" by simp
  then show "1 \<le> (2 ^ 64 - 1) div n" using assms(2)
    by (simp add: Suc_le_eq div_greater_zero_iff)
  show "n * ((2 ^ 64 - 1) div n) \<le> (2::nat) ^ 64 - 1"
    by simp
qed

lemma unat_mult_quot:
  fixes serverSpan j :: "32 word"
  assumes "j \<le> serverSpan" "serverSpan \<noteq> 0"
  shows "unat (ucast j * (- 1 div ucast serverSpan) :: 64 word) =
           unat j * ((2 ^ 64 - 1) div unat serverSpan)"
proof -
  let ?n = "unat serverSpan" and ?q = "(2 ^ 64 - 1) div unat serverSpan"
  have n0: "0 < ?n" using assms(2) by (simp add: unat_gt_0)
  have "unat j \<le> ?n" using assms(1) by (simp add: word_le_nat_alt)
  then have "unat j * ?q \<le> ?n * ?q" by (rule mult_le_mono1)
  also have "\<dots> \<le> 2 ^ 64 - 1" using span_quot_bounds(2)[OF refl n0] .
  finally have b: "unat j * ?q < 2 ^ 64" by simp
  have uj: "unat (ucast j :: 64 word) = unat j" by (rule unat_ucast_32_64)
  have "unat (ucast j :: 64 word) * unat (- 1 div ucast serverSpan :: 64 word) < 2 ^ LENGTH(64)"
    using b by (simp only: uj unat_span_quot) simp
  then have "unat (ucast j * (- 1 div ucast serverSpan) :: 64 word) =
               unat (ucast j :: 64 word) * unat (- 1 div ucast serverSpan :: 64 word)"
    by (simp only: unat_mult_lem)
  then show ?thesis by (simp only: uj unat_span_quot)
qed

lemma unat_firstKeyHash:
  assumes "i < serverSpan"
  shows "unat (firstKeyHash serverSpan i) =
           (if unat i = 0 then 0 else unat i * ((2 ^ 64 - 1) div unat serverSpan) + 1)"
proof (cases "i = 0")
  case True
  then show ?thesis by (simp add: firstKeyHash_def)
next
  case False
  let ?n = "unat serverSpan" and ?q = "(2 ^ 64 - 1) div unat serverSpan"
  from assms have s0: "serverSpan \<noteq> 0" and n0: "0 < ?n" and lt: "unat i < ?n"
    by (auto simp: word_less_nat_alt)
  have m: "unat (ucast i * (- 1 div ucast serverSpan) :: 64 word) = unat i * ?q"
    using assms s0 by (intro unat_mult_quot) simp_all
  have "unat i * ?q + ?q = Suc (unat i) * ?q" by simp
  also have "\<dots> \<le> ?n * ?q" using lt by (intro mult_le_mono1) simp
  also have "\<dots> \<le> 2 ^ 64 - 1" using span_quot_bounds(2)[OF refl n0] .
  finally have "unat i * ?q + 1 < 2 ^ 64" using span_quot_bounds(1)[OF refl n0] by simp
  then have "unat (ucast i * (- 1 div ucast serverSpan) + 1 :: 64 word) = unat i * ?q + 1"
    using m by (simp add: unat_add_lem[THEN iffD1])
  moreover have "unat i \<noteq> 0" using False by (simp add: unat_eq_0)
  ultimately show ?thesis using False by (simp add: firstKeyHash_def)
qed

lemma unat_lastKeyHash:
  assumes "i < serverSpan"
  shows "unat (lastKeyHash serverSpan i) =
           (if unat i = unat serverSpan - 1 then 2 ^ 64 - 1
            else (unat i + 1) * ((2 ^ 64 - 1) div unat serverSpan))"
proof -
  from assms have s0: "serverSpan \<noteq> 0" and lt: "unat i < unat serverSpan"
    by (auto simp: word_less_nat_alt)
  from assms have u: "unat (i + 1) = unat i + 1" by unat_arith
  have le: "i + 1 \<le> serverSpan" using lt u by (simp add: word_le_nat_alt)
  have e: "(i = serverSpan - 1) = (unat i = unat serverSpan - 1)"
    using s0 by (simp add: word_unat_eq_iff unat_minus_one)
  show ?thesis
    using unat_mult_quot[OF le s0] by (simp add: lastKeyHash_def e u unat_max_64)
qed

text \<open>Consecutive non-empty intervals that start at 0 and end at \<open>M\<close> partition \<open>{0..M}\<close>.\<close>

lemma interval_chain_less:
  fixes s e :: "nat \<Rightarrow> nat"
  assumes step: "\<forall>i. Suc i < n \<longrightarrow> s (Suc i) = Suc (e i)" and ne: "\<forall>i < n. s i \<le> e i"
  shows "i < j \<Longrightarrow> j < n \<Longrightarrow> e i < s j"
proof (induction j)
  case 0
  then show ?case by simp
next
  case (Suc j)
  have sj: "s (Suc j) = Suc (e j)" using step Suc.prems(2) by simp
  show ?case
  proof (cases "i = j")
    case True
    then show ?thesis using sj by simp
  next
    case False
    with Suc.prems have "i < j" "j < n" by simp_all
    then have "e i < s j" by (rule Suc.IH)
    also have "s j \<le> e j" using ne \<open>j < n\<close> by simp
    finally show ?thesis using sj by simp
  qed
qed

lemma interval_chain_unique:
  fixes s e :: "nat \<Rightarrow> nat"
  assumes n0: "0 < n" and s0: "s 0 = 0"
    and step: "\<forall>i. Suc i < n \<longrightarrow> s (Suc i) = Suc (e i)"
    and ne: "\<forall>i < n. s i \<le> e i"
    and last: "e (n - 1) = M" and hM: "h \<le> M"
  shows "\<exists>!i. i < n \<and> s i \<le> h \<and> h \<le> e i"
proof -
  define k where "k = (LEAST i. h \<le> e i)"
  have ex: "h \<le> e (n - 1)" using last hM by simp
  have hk: "h \<le> e k" unfolding k_def using ex by (rule LeastI)
  have kle: "k \<le> n - 1" unfolding k_def using ex by (rule Least_le)
  then have kn: "k < n" using n0 by simp
  have sk: "s k \<le> h"
  proof (cases k)
    case 0
    then show ?thesis using s0 by simp
  next
    case (Suc k')
    then have "k' < k" by simp
    then have "\<not> h \<le> e k'" unfolding k_def by (rule not_less_Least)
    moreover have "s k = Suc (e k')" using step kn Suc by simp
    ultimately show ?thesis by simp
  qed
  show ?thesis
  proof (rule ex1I[of _ k])
    show "k < n \<and> s k \<le> h \<and> h \<le> e k" using kn sk hk by simp
  next
    fix i assume a: "i < n \<and> s i \<le> h \<and> h \<le> e i"
    show "i = k"
    proof (rule ccontr)
      assume "i \<noteq> k"
      then consider "i < k" | "k < i" by linarith
      then show False
      proof cases
        case 1
        then have "e i < s k" using interval_chain_less[OF step ne] kn by simp
        then show False using a sk by simp
      next
        case 2
        then have "e k < s i" using interval_chain_less[OF step ne] a by simp
        then show False using a hk by simp
      qed
    qed
  qed
qed

subsection \<open>A successful createTable\<close>

lemma CreateTable_complete_ok:
  assumes "unat serverSpan \<le> length (ti_tablet_info state)"
  shows "CreateTable_complete None tm lc nm tid serverSpan state entryId =
           Returned tid
             (tm\<lparr>tables := (tables tm)(nm \<mapsto> tid),
                 tablesLogIds := (tablesLogIds tm)(tid \<mapsto> nextEntryId lc),
                 tabletMap := tabletMap tm @
                    map (tabletOfInfo tid) (take (unat serverSpan) (ti_tablet_info state))\<rparr>)
             (snd (appendProtoBuf lc (TableInformation_PB (state\<lparr>ti_entry_type := ''AliveTable''\<rparr>))
                     [entryId]))"
  by (simp add: CreateTable_complete_def addTablets_ok[OF assms] checkAndCrashCoordinator_def
        appendProtoBuf_def setTableInfoLogId_def Let_def)

lemma CreateTable_execute_ok:
  assumes fm: "\<forall>idx. \<exists>m idx'. findMaster csl idx = Some (Inr (m, idx')) \<and> isMaster m"
    and fresh: "tables tm nm = None"
    and span: "serverSpan = (if serverSpan0 = 0 then 1 else serverSpan0)"
  shows "\<exists>tm' lc' masters.
           CreateTable_execute None csl tm lc nm serverSpan0 =
             Some (Returned (nextTableId tm) tm' lc') \<and>
           tables tm' = (tables tm)(nm \<mapsto> nextTableId tm) \<and>
           tabletMap tm' = tabletMap tm @
             map (\<lambda>(j, m). tabletOfInfo (nextTableId tm) (newTabletInfo serverSpan (of_nat j) m))
               (zip [0..<unat serverSpan] masters) \<and>
           length masters = unat serverSpan \<and> (\<forall>m \<in> set masters. isMaster m)"
proof -
  from createTablets_ok[OF fm, of serverSpan 0 "nextTableMasterIdx tm" "[]"]
  obtain idx' masters where
    ct: "createTablets csl serverSpan 0 (nextTableMasterIdx tm) [] =
           Some (Inr (idx', map (\<lambda>(j, m). newTabletInfo serverSpan (of_nat j) m)
                              (zip [0..<unat serverSpan] masters)))"
    and l: "length masters = unat serverSpan" and a: "\<forall>m \<in> set masters. isMaster m"
    by auto
  let ?infos = "map (\<lambda>(j, m). newTabletInfo serverSpan (of_nat j) m) (zip [0..<unat serverSpan] masters)"
  have li: "length ?infos = unat serverSpan" using l by simp
  define state where "state = \<lparr>ti_entry_type = ''CreateTable'', ti_name = nm,
     ti_table_id = nextTableId tm, ti_server_span = serverSpan, ti_tablet_info = ?infos\<rparr>"
  define invalidates where
    "invalidates = (case logIdLargestTableId tm of None \<Rightarrow> [] | Some l \<Rightarrow> [l])"
  define lc1 where "lc1 = snd (appendProtoBuf lc (TableInformation_PB state) invalidates)"
  define tm3 where "tm3 = setTableInfoLogId
     (tm\<lparr>nextTableId := nextTableId tm + 1, nextTableMasterIdx := idx', logIdLargestTableId := None\<rparr>)
     (nextTableId tm) (nextEntryId lc)"
  have ls: "unat serverSpan \<le> length (ti_tablet_info state)"
    using li by (simp add: state_def)
  have e: "CreateTable_execute None csl tm lc nm serverSpan0 =
             Some (CreateTable_complete None tm3 lc1 nm (nextTableId tm) serverSpan state
                     (nextEntryId lc))"
    unfolding CreateTable_execute_def checkAndCrashCoordinator_def
    by (simp add: fresh span[symmetric] ct state_def invalidates_def lc1_def tm3_def
          appendProtoBuf_def Let_def)
  show ?thesis
    unfolding e CreateTable_complete_ok[OF ls]
    apply (intro exI[of _ masters] exI conjI)
        apply (rule refl)
       apply (simp add: tm3_def setTableInfoLogId_def)
      apply (simp add: tm3_def setTableInfoLogId_def state_def li case_prod_unfold)
     apply (rule l)
    apply (rule a)
    done
qed

lemma newTablet_nth:
  assumes "length masters = n" "i < n"
  shows "map (\<lambda>(j, m). tabletOfInfo tid (newTabletInfo serverSpan (of_nat j) m))
           (zip [0..<n] masters) ! i =
         tabletOfInfo tid (newTabletInfo serverSpan (of_nat i) (masters ! i))"
  using assms by simp

subsection \<open>Key-hash ranges of a new table\<close>

text \<open>
  Claim C8.  For every \<open>serverSpan \<ge> 1\<close>, a createTable that finds masters (some slot of
  the server list holds one) and whose table name is new returns, and appends exactly
  \<open>serverSpan\<close> tablets to the tablet map.  With \<open>q = (2^64 - 1) div serverSpan\<close>, tablet
  \<open>i\<close> starts at \<open>i * q\<close>, plus 1 when \<open>i > 0\<close>, and ends at \<open>(i + 1) * q\<close>, the last one
  at \<open>2^64 - 1\<close>; the products do not wrap around.  The ranges are pairwise disjoint and
  cover the whole 64-bit hash space: every key hash lies in exactly one of the tablets.
\<close>

theorem createTable_key_hash_ranges:
  assumes s0: "serverSpan \<noteq> 0" and ma: "masterAt csl p" and p: "p < 2 ^ 64"
    and fresh: "tables tm nm = None"
  shows "\<exists>tm' lc' ts.
           createTable None csl tm lc nm serverSpan = Some (Returned (nextTableId tm) tm' lc') \<and>
           tabletMap tm' = tabletMap tm @ ts \<and> length ts = unat serverSpan \<and>
           (\<forall>i < unat serverSpan.
              tableId (ts ! i) = nextTableId tm \<and>
              unat (startKeyHash (ts ! i)) =
                (if i = 0 then 0 else i * ((2 ^ 64 - 1) div unat serverSpan) + 1) \<and>
              unat (endKeyHash (ts ! i)) =
                (if i = unat serverSpan - 1 then 2 ^ 64 - 1
                 else (i + 1) * ((2 ^ 64 - 1) div unat serverSpan))) \<and>
           (\<forall>h. \<exists>!i. i < unat serverSpan \<and> inTablet h (ts ! i))"
proof -
  let ?n = "unat serverSpan" and ?q = "(2 ^ 64 - 1) div unat serverSpan" and ?tid = "nextTableId tm"
  have fm: "\<forall>idx. \<exists>m idx'. findMaster csl idx = Some (Inr (m, idx')) \<and> isMaster m"
    using findMaster_total[OF ma p] by blast
  have sp: "serverSpan = (if serverSpan = 0 then 1 else serverSpan)" using s0 by simp
  from CreateTable_execute_ok[OF fm fresh sp, of lc] obtain tm' lc' masters where
    ex: "CreateTable_execute None csl tm lc nm serverSpan = Some (Returned ?tid tm' lc')"
    and tmap: "tabletMap tm' = tabletMap tm @
             map (\<lambda>(j, m). tabletOfInfo ?tid (newTabletInfo serverSpan (of_nat j) m))
               (zip [0..<?n] masters)"
    and lm: "length masters = ?n" by blast
  define ts where "ts = map (\<lambda>(j, m). tabletOfInfo ?tid (newTabletInfo serverSpan (of_nat j) m))
               (zip [0..<?n] masters)"
  define s where "s = (\<lambda>i::nat. if i = 0 then 0 else i * ?q + 1)"
  define e where "e = (\<lambda>i::nat. if i = ?n - 1 then 2 ^ 64 - 1 else (i + 1) * ?q)"
  have n0: "0 < ?n" using s0 by (simp add: unat_gt_0)
  have q1: "1 \<le> ?q" and nq: "?n * ?q \<le> 2 ^ 64 - 1"
    using span_quot_bounds[OF refl n0] by simp_all
  have len: "length ts = ?n" using lm by (simp add: ts_def)
  have nth: "tableId (ts ! i) = ?tid \<and> unat (startKeyHash (ts ! i)) = s i \<and>
             unat (endKeyHash (ts ! i)) = e i" if i: "i < ?n" for i
  proof -
    have i32: "i < 2 ^ 32" using i unat_32_bound[of serverSpan] by simp
    then have ui: "unat (of_nat i :: 32 word) = i" by (simp add: unat_of_nat)
    then have lt: "(of_nat i :: 32 word) < serverSpan" using i by (simp add: word_less_nat_alt)
    have "ts ! i = tabletOfInfo ?tid (newTabletInfo serverSpan (of_nat i) (masters ! i))"
      unfolding ts_def using newTablet_nth[OF lm i] .
    then have c: "tableId (ts ! i) = ?tid"
      "startKeyHash (ts ! i) = firstKeyHash serverSpan (of_nat i)"
      "endKeyHash (ts ! i) = lastKeyHash serverSpan (of_nat i)"
      by (simp_all add: tabletOfInfo_def newTabletInfo_def)
    show ?thesis
      unfolding c s_def e_def
      using unat_firstKeyHash[OF lt, unfolded ui] unat_lastKeyHash[OF lt, unfolded ui]
      by (intro conjI refl) assumption+
  qed
  have step: "\<forall>i. Suc i < ?n \<longrightarrow> s (Suc i) = Suc (e i)"
    by (auto simp: s_def e_def)
  have ne: "\<forall>i < ?n. s i \<le> e i"
  proof (intro allI impI)
    fix i assume i: "i < ?n"
    have a: "i * ?q + 1 \<le> Suc i * ?q" using q1 by simp
    have b: "Suc i * ?q \<le> ?n * ?q" using i by (intro mult_le_mono1) simp
    have c1: "i * ?q + 1 \<le> 2 ^ 64 - 1"
      by (rule order.trans[OF a order.trans[OF b nq]])
    have c2: "i * ?q + 1 \<le> (i + 1) * ?q" using a by simp
    have si: "s i \<le> i * ?q + 1" by (simp add: s_def)
    have ei: "e i = 2 ^ 64 - 1 \<or> e i = (i + 1) * ?q" by (simp add: e_def)
    then show "s i \<le> e i"
    proof
      assume "e i = 2 ^ 64 - 1"
      then show ?thesis using order.trans[OF si c1] by (simp only:)
    next
      assume "e i = (i + 1) * ?q"
      then show ?thesis using order.trans[OF si c2] by (simp only:)
    qed
  qed
  have part: "\<exists>!i. i < ?n \<and> inTablet h (ts ! i)" for h :: "64 word"
  proof -
    have hM: "unat h \<le> 2 ^ 64 - 1" using unsigned_less[of h, where 'a = nat] by simp
    have u: "\<exists>!i. i < ?n \<and> s i \<le> unat h \<and> unat h \<le> e i"
      by (rule interval_chain_unique[OF n0 _ step ne _ hM]) (simp_all add: s_def e_def)
    have "(i < ?n \<and> inTablet h (ts ! i)) = (i < ?n \<and> s i \<le> unat h \<and> unat h \<le> e i)" for i
      using nth[of i] by (auto simp: inTablet_def word_le_nat_alt)
    then show ?thesis using u by simp
  qed
  show ?thesis
    unfolding createTable_def ex
    apply (intro exI[of _ ts] exI conjI)
        apply (rule refl)
       apply (simp add: tmap ts_def)
      apply (rule len)
     apply (use nth in \<open>simp add: s_def e_def\<close>)
    apply (use part in blast)
    done
qed

theorem createTable_key_hash_ranges_witness:
  "(3 :: 32 word) \<noteq> 0 \<and> masterAt [None, Some exampleMaster] 1 \<and> (1::nat) < 2 ^ 64 \<and>
   tables TableManager_init ''t'' = None \<and>
   (\<exists>tm' lc' ts.
      createTable None [None, Some exampleMaster] TableManager_init emptyLog ''t'' 3 =
        Some (Returned 1 tm' lc') \<and>
      tabletMap tm' = ts \<and> length ts = 3 \<and>
      unat (startKeyHash (ts ! 0)) = 0 \<and> unat (endKeyHash (ts ! 0)) = 6148914691236517205 \<and>
      unat (startKeyHash (ts ! 1)) = 6148914691236517206 \<and>
      unat (endKeyHash (ts ! 1)) = 12297829382473034410 \<and>
      unat (startKeyHash (ts ! 2)) = 12297829382473034411 \<and>
      unat (endKeyHash (ts ! 2)) = 18446744073709551615 \<and>
      (\<exists>!i. i < 3 \<and> inTablet 12297829382473034410 (ts ! i)))"
proof -
  have h: "(3 :: 32 word) \<noteq> 0" "masterAt [None, Some exampleMaster] 1" "(1::nat) < 2 ^ 64"
    "tables TableManager_init ''t'' = None"
    by (simp_all add: masterAt_def csl_index_def isMaster_def exampleMaster_def TableManager_init_def)
  from createTable_key_hash_ranges[OF h, of emptyLog] obtain tm' lc' ts where
    r: "createTable None [None, Some exampleMaster] TableManager_init emptyLog ''t'' 3 =
          Some (Returned (nextTableId TableManager_init) tm' lc')"
      "tabletMap tm' = tabletMap TableManager_init @ ts" "length ts = unat (3 :: 32 word)"
      "\<forall>i < unat (3 :: 32 word).
              tableId (ts ! i) = nextTableId TableManager_init \<and>
              unat (startKeyHash (ts ! i)) =
                (if i = 0 then 0 else i * ((2 ^ 64 - 1) div unat (3 :: 32 word)) + 1) \<and>
              unat (endKeyHash (ts ! i)) =
                (if i = unat (3 :: 32 word) - 1 then 2 ^ 64 - 1
                 else (i + 1) * ((2 ^ 64 - 1) div unat (3 :: 32 word)))"
      "\<forall>h. \<exists>!i. i < unat (3 :: 32 word) \<and> inTablet h (ts ! i)"
    by blast
  have a0: "unat (startKeyHash (ts ! 0)) = 0 \<and> unat (endKeyHash (ts ! 0)) = 6148914691236517205"
    using r(4)[rule_format, of 0] by simp
  have a1: "unat (startKeyHash (ts ! 1)) = 6148914691236517206 \<and>
            unat (endKeyHash (ts ! 1)) = 12297829382473034410"
    using r(4)[rule_format, of 1] by simp
  have a2: "unat (startKeyHash (ts ! 2)) = 12297829382473034411 \<and>
            unat (endKeyHash (ts ! 2)) = 18446744073709551615"
    using r(4)[rule_format, of 2] by simp
  have a3: "\<exists>!i. i < 3 \<and> inTablet 12297829382473034410 (ts ! i)"
    using r(5)[rule_format, of 12297829382473034410] by simp
  have "createTable None [None, Some exampleMaster] TableManager_init emptyLog ''t'' 3 =
          Some (Returned 1 tm' lc') \<and> tabletMap tm' = ts \<and> length ts = 3"
    using r(1,2,3) by (simp add: TableManager_init_def)
  with a0 a1 a2 a3 h show ?thesis by blast
qed

subsection \<open>serverSpan = 0\<close>

text \<open>
  Claim C9.  createTable with \<open>serverSpan = 0\<close> behaves exactly as with \<open>serverSpan = 1\<close>
  (same result, state and journal, whatever the crash marker, the server list and the
  state are).  When the name is new and a master exists, the call returns the new table
  id, records the table and adds a single tablet whose range is \<open>[0, 2^64 - 1]\<close>.
\<close>

theorem createTable_serverSpan_zero:
  "createTable rt csl tm lc nm 0 = createTable rt csl tm lc nm 1 \<and>
   (masterAt csl p \<and> p < 2 ^ 64 \<and> tables tm nm = None \<longrightarrow>
      (\<exists>tm' lc' master.
         createTable None csl tm lc nm 0 = Some (Returned (nextTableId tm) tm' lc') \<and>
         isMaster master \<and>
         tables tm' = (tables tm)(nm \<mapsto> nextTableId tm) \<and>
         tabletMap tm' = tabletMap tm @
           [\<lparr>tableId = nextTableId tm, startKeyHash = 0, endKeyHash = - 1,
             tablet_serverId = serverId master, tablet_status = NORMAL, ctime = (0, 0)\<rparr>]))"
proof (intro conjI impI)
  show "createTable rt csl tm lc nm 0 = createTable rt csl tm lc nm 1"
    by (simp add: createTable_def CreateTable_execute_def)
next
  assume a: "masterAt csl p \<and> p < 2 ^ 64 \<and> tables tm nm = None"
  then have fm: "\<forall>idx. \<exists>m idx'. findMaster csl idx = Some (Inr (m, idx')) \<and> isMaster m"
    using findMaster_total by blast
  have sp: "(1 :: 32 word) = (if (0 :: 32 word) = 0 then 1 else 0)" by simp
  from a have fresh: "tables tm nm = None" by simp
  from CreateTable_execute_ok[OF fm fresh sp, of lc] obtain tm' lc' masters where
    ex: "CreateTable_execute None csl tm lc nm 0 = Some (Returned (nextTableId tm) tm' lc')"
    and tb: "tables tm' = (tables tm)(nm \<mapsto> nextTableId tm)"
    and tmap: "tabletMap tm' = tabletMap tm @
             map (\<lambda>(j, m). tabletOfInfo (nextTableId tm) (newTabletInfo 1 (of_nat j) m))
               (zip [0..<unat (1 :: 32 word)] masters)"
    and lm: "length masters = unat (1 :: 32 word)"
    and am: "\<forall>m \<in> set masters. isMaster m" by blast
  from lm obtain m where ms: "masters = [m]" by (cases masters) simp_all
  have "tabletMap tm' = tabletMap tm @
           [\<lparr>tableId = nextTableId tm, startKeyHash = 0, endKeyHash = - 1,
             tablet_serverId = serverId m, tablet_status = NORMAL, ctime = (0, 0)\<rparr>]"
    using tmap by (simp add: ms tabletOfInfo_def newTabletInfo_def firstKeyHash_def lastKeyHash_def)
  moreover have "isMaster m" using am ms by simp
  ultimately show "\<exists>tm' lc' master.
         createTable None csl tm lc nm 0 = Some (Returned (nextTableId tm) tm' lc') \<and>
         isMaster master \<and>
         tables tm' = (tables tm)(nm \<mapsto> nextTableId tm) \<and>
         tabletMap tm' = tabletMap tm @
           [\<lparr>tableId = nextTableId tm, startKeyHash = 0, endKeyHash = - 1,
             tablet_serverId = serverId master, tablet_status = NORMAL, ctime = (0, 0)\<rparr>]"
    unfolding createTable_def using ex tb by blast
qed

theorem createTable_serverSpan_zero_witness:
  "createTable None [Some exampleMaster] TableManager_init emptyLog ''t'' 0 =
     createTable None [Some exampleMaster] TableManager_init emptyLog ''t'' 1 \<and>
   masterAt [Some exampleMaster] 0 \<and> (0::nat) < 2 ^ 64 \<and> tables TableManager_init ''t'' = None \<and>
   (\<exists>tm' lc' master.
      createTable None [Some exampleMaster] TableManager_init emptyLog ''t'' 0 =
        Some (Returned 1 tm' lc') \<and>
      isMaster master \<and> tables tm' ''t'' = Some 1 \<and>
      tabletMap tm' =
        [\<lparr>tableId = 1, startKeyHash = 0, endKeyHash = - 1,
          tablet_serverId = serverId master, tablet_status = NORMAL, ctime = (0, 0)\<rparr>])"
proof -
  have h: "masterAt [Some exampleMaster] 0 \<and> (0::nat) < 2 ^ 64 \<and>
           tables TableManager_init ''t'' = None"
    by (simp add: masterAt_def csl_index_def isMaster_def exampleMaster_def TableManager_init_def)
  from createTable_serverSpan_zero[of None "[Some exampleMaster]" TableManager_init emptyLog
      "''t''" 0]
  have e: "createTable None [Some exampleMaster] TableManager_init emptyLog ''t'' 0 =
             createTable None [Some exampleMaster] TableManager_init emptyLog ''t'' 1"
    and "masterAt [Some exampleMaster] 0 \<and> (0::nat) < 2 ^ 64 \<and>
           tables TableManager_init ''t'' = None \<longrightarrow>
      (\<exists>tm' lc' master.
         createTable None [Some exampleMaster] TableManager_init emptyLog ''t'' 0 =
           Some (Returned (nextTableId TableManager_init) tm' lc') \<and>
         isMaster master \<and>
         tables tm' = (tables TableManager_init)(''t'' \<mapsto> nextTableId TableManager_init) \<and>
         tabletMap tm' = tabletMap TableManager_init @
           [\<lparr>tableId = nextTableId TableManager_init, startKeyHash = 0, endKeyHash = - 1,
             tablet_serverId = serverId master, tablet_status = NORMAL, ctime = (0, 0)\<rparr>])"
    by blast+
  with h obtain tm' lc' master where
    r: "createTable None [Some exampleMaster] TableManager_init emptyLog ''t'' 0 =
           Some (Returned (nextTableId TableManager_init) tm' lc')"
       "isMaster master"
       "tables tm' = (tables TableManager_init)(''t'' \<mapsto> nextTableId TableManager_init)"
       "tabletMap tm' = tabletMap TableManager_init @
           [\<lparr>tableId = nextTableId TableManager_init, startKeyHash = 0, endKeyHash = - 1,
             tablet_serverId = serverId master, tablet_status = NORMAL, ctime = (0, 0)\<rparr>]"
    by blast
  have n: "nextTableId TableManager_init = 1" "tabletMap TableManager_init = []"
    by (simp_all add: TableManager_init_def)
  have "createTable None [Some exampleMaster] TableManager_init emptyLog ''t'' 0 =
        Some (Returned 1 tm' lc') \<and>
      isMaster master \<and> tables tm' ''t'' = Some 1 \<and>
      tabletMap tm' =
        [\<lparr>tableId = 1, startKeyHash = 0, endKeyHash = - 1,
          tablet_serverId = serverId master, tablet_status = NORMAL, ctime = (0, 0)\<rparr>]"
    using r by (simp add: n)
  with e h show ?thesis by blast
qed

subsection \<open>Dropping an unknown table\<close>

text \<open>
  Claim C10.  For a name that is not in the tables map, dropTable returns normally,
  whatever crash marker is armed, and leaves the TableManager (tables map, tablet map
  and all other members) and the journal exactly as they were: nothing is appended and
  nothing is invalidated.
\<close>

theorem dropTable_unknown_name:
  "tables tm nm = None \<Longrightarrow> dropTable rt tm lc nm = Returned () tm lc"
  by (simp add: dropTable_def DropTable_execute_def)

theorem dropTable_unknown_name_witness:
  "tables TableManager_init ''t'' = None \<and>
   dropTable (Some ''drop_1'') TableManager_init emptyLog ''t'' =
     Returned () TableManager_init emptyLog"
  using dropTable_unknown_name[of TableManager_init "''t''" "Some ''drop_1''" emptyLog]
  by (simp add: TableManager_init_def)

subsection \<open>Crash points and replay\<close>
























section \<open>The server list: version invariants and published updates\<close>

lemma indexNumber_mk: "indexNumber (mkServerId i g) = i"
  unfolding indexNumber_def mkServerId_def
  by (rule bit_word_eqI) (auto simp: bit_simps)




lemma getEntry_Some:
  "getEntry csl sid = Some e \<Longrightarrow>
     unat (indexNumber sid) < length (serverList csl) \<and>
     snd (serverList csl ! unat (indexNumber sid)) = Some e \<and> serverId e = sid"
  by (auto simp: getEntry_def split: if_splits option.splits)



text \<open>Members that the invariant does not read.\<close>

lemma listInvariant_cong:
  "serverList csl' = serverList csl \<Longrightarrow> currentVersion csl' = currentVersion csl \<Longrightarrow>
   updates csl' = updates csl \<Longrightarrow> updating csl' = updating csl \<Longrightarrow>
   listInvariant csl' = listInvariant csl"
  by (simp add: listInvariant_def)





lemma currentVersion_crashed [simp]: "currentVersion (crashed csl sid) = currentVersion csl"
  by (simp add: crashed_def putEntry_def Let_def split: option.splits)











lemma currentVersion_add [simp]:
  "currentVersion (add csl sid locator serviceMask readSpeed) = currentVersion csl"
  by (simp add: add_def putEntry_def Let_def)

lemma firstFreeFrom_cong:
  "map (\<lambda>p. snd p = None) xs = map (\<lambda>p. snd p = None) ys \<Longrightarrow>
   firstFreeFrom xs k = firstFreeFrom ys k"
proof (induction xs arbitrary: ys k)
  case Nil
  then show ?case by simp
next
  case (Cons x xs)
  then obtain y ys' where ys: "ys = y # ys'" by (cases ys) auto
  with Cons.prems have "(snd x = None) = (snd y = None)"
    and "map (\<lambda>p. snd p = None) xs = map (\<lambda>p. snd p = None) ys'" by simp_all
  with Cons.IH[of ys' "k + 1"] show ?case by (simp add: ys)
qed

lemma occupied_putEntry:
  assumes "getEntry csl sid = Some e"
  shows "map (\<lambda>p. snd p = None) (serverList (putEntry csl (unat (indexNumber sid)) e')) =
         map (\<lambda>p. snd p = None) (serverList csl)"
proof (rule nth_equalityI)
  show "length (map (\<lambda>p. snd p = None) (serverList (putEntry csl (unat (indexNumber sid)) e'))) =
        length (map (\<lambda>p. snd p = None) (serverList csl))"
    by (simp add: putEntry_def)
next
  fix i
  assume "i < length (map (\<lambda>p. snd p = None) (serverList (putEntry csl (unat (indexNumber sid)) e')))"
  then have i: "i < length (serverList csl)" by (simp add: putEntry_def)
  from getEntry_Some[OF assms] have "snd (serverList csl ! unat (indexNumber sid)) = Some e"
    by simp
  then show "map (\<lambda>p. snd p = None) (serverList (putEntry csl (unat (indexNumber sid)) e')) ! i =
             map (\<lambda>p. snd p = None) (serverList csl) ! i"
    using i by (cases "i = unat (indexNumber sid)") (simp_all add: putEntry_def)
qed

lemma firstFreeIndex_crashed: "firstFreeIndex (crashed csl sid) = firstFreeIndex csl"
proof (cases "getEntry csl sid")
  case None
  then show ?thesis by (simp add: crashed_def)
next
  case (Some e)
  have "map (\<lambda>p. snd p = None) (drop 1 (serverList (putEntry csl (unat (indexNumber sid)) e'))) =
        map (\<lambda>p. snd p = None) (drop 1 (serverList csl))" for e'
    using occupied_putEntry[OF Some, of e'] by (simp only: drop_map[symmetric])
  from firstFreeFrom_cong[OF this] show ?thesis
    using Some by (simp add: crashed_def firstFreeIndex_def Let_def)
qed
















lemma exampleEnlisted_eval:
  "serverList exampleEnlisted = [(0, None), (0, Some exampleEntry)]"
  "currentVersion exampleEnlisted = 1"
  "updating exampleEnlisted = {}"
  "map version (updates exampleEnlisted) = [1]"
  "map (\<lambda>p. map (\<lambda>d. (serverId d, status d)) (server (incremental p))) (updates exampleEnlisted)
     = [[(1, UP)]]"
  "searchIndex (lastScan exampleEnlisted) = 0"
  by (simp_all add: exampleEnlisted_def enlistServer_def getEntry_def CoordinatorServerList_init_def
      indexNumber_def generateUniqueId_def firstFreeIndex_def mkServerId_def add_def putEntry_def
      pushUpdate_def Let_def exampleEntry_def serializeEntry_def Entry_new_def ScanMetadata_init_def)

lemma exampleInFlight_eval:
  "serverList exampleInFlight = [(0, None), (0, Some (exampleEntry\<lparr>updateVersion := 1\<rparr>))]"
  "currentVersion exampleInFlight = 1"
  "updating exampleInFlight = {1}"
proof -
  have a: "acceptsUpdates exampleEntry" "verifiedVersion exampleEntry = 0"
    "updateVersion exampleEntry = 0" "serverId exampleEntry = 1"
    by (simp_all add: acceptsUpdates_def exampleEntry_def Entry_new_def UNINITIALIZED_VERSION_def)
  have u: "updates exampleEnlisted \<noteq> []" "version (last (updates exampleEnlisted)) = 1"
    using exampleEnlisted_eval(4) by (auto simp: last_map[symmetric] simp del: last_map)
  have m: "makeWorkUnit (exampleEnlisted\<lparr>lastScan := ls\<rparr>) exampleEntry =
             Some \<lparr>targetServer = 1, sendFullList = True,
                   firstUpdate = [last (updates exampleEnlisted)], updateVersionTail = 1\<rparr>" for ls
    by (simp add: makeWorkUnit_def a u UNINITIALIZED_VERSION_def)
  have g: "getWork exampleEnlisted =
      (Some \<lparr>targetServer = 1, sendFullList = True,
                   firstUpdate = [last (updates exampleEnlisted)], updateVersionTail = 1\<rparr>,
       (putEntry (exampleEnlisted\<lparr>lastScan := (lastScan exampleEnlisted)
                    \<lparr>minVersion := min (minVersion (lastScan exampleEnlisted)) 0\<rparr>\<rparr>) 1
            (exampleEntry\<lparr>updateVersion := 1\<rparr>))
          \<lparr>lastScan := (lastScan exampleEnlisted)
                    \<lparr>minVersion := min (minVersion (lastScan exampleEnlisted)) 0,
                     noWorkFoundForEpoch := 0, searchIndex := 0\<rparr>,
           numUpdatingServers := numUpdatingServers exampleEnlisted + 1,
           updating := {1}\<rparr>)"
    by (simp add: getWork_def exampleEnlisted_eval numeral_2_eq_2 a m Let_def)
  show "serverList exampleInFlight = [(0, None), (0, Some (exampleEntry\<lparr>updateVersion := 1\<rparr>))]"
    "currentVersion exampleInFlight = 1" "updating exampleInFlight = {1}"
    by (simp_all add: exampleInFlight_def g putEntry_def exampleEnlisted_eval)
qed

lemma reachable_exampleEnlisted: "reachable exampleEnlisted"
proof -
  have "withinBounds CoordinatorServerList_init
          (EnlistServer 0 {MASTER_SERVICE, MEMBERSHIP_SERVICE} 100 ''tcp:1'')"
    by (simp add: CoordinatorServerList_init_def MAX64_def firstFreeIndex_def)
  from reachable_step[OF reachable_init this] show "reachable exampleEnlisted"
    by (simp add: exampleEnlisted_def)
qed



lemma getEntry_putEntry_same:
  assumes "unat (indexNumber sid) < length (serverList csl)" "serverId e' = sid"
  shows "getEntry (putEntry csl (unat (indexNumber sid)) e') sid = Some e'"
  using assms by (simp add: getEntry_def putEntry_def)

lemma getEntry_putEntry_other:
  assumes "getEntry csl sid = Some e" "serverId e' = sid" "sid' \<noteq> sid"
  shows "getEntry (putEntry csl (unat (indexNumber sid)) e') sid' = getEntry csl sid'"
proof -
  from getEntry_Some[OF assms(1)] have k: "unat (indexNumber sid) < length (serverList csl)"
    and sl: "snd (serverList csl ! unat (indexNumber sid)) = Some e" and id: "serverId e = sid"
    by simp_all
  show ?thesis
  proof (cases "unat (indexNumber sid') = unat (indexNumber sid)")
    case True
    then show ?thesis using k sl id assms(2,3) by (simp add: getEntry_def putEntry_def)
  next
    case False
    then show ?thesis using k by (simp add: getEntry_def putEntry_def nth_list_update)
  qed
qed

lemma getEntry_fields [simp]:
  "getEntry (csl\<lparr>updates := u\<rparr>) sid = getEntry csl sid"
  "getEntry (csl\<lparr>minConfirmedVersion := m\<rparr>) sid = getEntry csl sid"
  "getEntry (csl\<lparr>update := d\<rparr>) sid = getEntry csl sid"
  "getEntry (csl\<lparr>currentVersion := v\<rparr>) sid = getEntry csl sid"
  "getEntry (workDone csl s) sid = getEntry csl sid"
  "getEntry (pruneUpdates csl) sid = getEntry csl sid"
  by (simp_all add: getEntry_def workDone_def pruneUpdates_def)

lemma serverList_fields [simp]:
  "serverList (workDone csl s) = serverList csl"
  "serverList (pruneUpdates csl) = serverList csl"
  "serverList (pushUpdate csl) = serverList csl"
  by (simp_all add: workDone_def pruneUpdates_def pushUpdate_def Let_def)

text \<open>
  Claim C2. For a server that has an entry, \<open>workSuccess\<close> sets the entry's
  \<open>verifiedVersion\<close> to its \<open>updateVersion\<close> (the update is committed), and \<open>workFailed\<close> sets
  its \<open>updateVersion\<close> back to its \<open>verifiedVersion\<close> (the update is rolled back); neither touches
  another field of the entry nor the entry of another server.
\<close>

theorem work_report_commit_rollback:
  assumes ge: "getEntry csl sid = Some e"
  shows "serverList (workSuccess csl sid) =
           (serverList csl)[unat (indexNumber sid) :=
              (fst (serverList csl ! unat (indexNumber sid)),
               Some (e\<lparr>verifiedVersion := updateVersion e\<rparr>))] \<and>
         getEntry (workSuccess csl sid) sid = Some (e\<lparr>verifiedVersion := updateVersion e\<rparr>) \<and>
         serverList (workFailed csl sid) =
           (serverList csl)[unat (indexNumber sid) :=
              (fst (serverList csl ! unat (indexNumber sid)),
               Some (e\<lparr>updateVersion := verifiedVersion e\<rparr>))] \<and>
         getEntry (workFailed csl sid) sid = Some (e\<lparr>updateVersion := verifiedVersion e\<rparr>) \<and>
         (\<forall>sid'. sid' \<noteq> sid \<longrightarrow>
            getEntry (workSuccess csl sid) sid' = getEntry csl sid' \<and>
            getEntry (workFailed csl sid) sid' = getEntry csl sid')"
proof -
  from getEntry_Some[OF ge] have k: "unat (indexNumber sid) < length (serverList csl)"
    and id: "serverId e = sid" by simp_all
  have k': "unat (indexNumber sid) < length (serverList (workDone csl sid))" using k by simp
  have ge': "getEntry (workDone csl sid) sid = Some e" using ge by simp
  have s: "workSuccess csl sid =
             pruneUpdates ((putEntry (workDone csl sid) (unat (indexNumber sid))
                              (e\<lparr>verifiedVersion := updateVersion e\<rparr>))
                \<lparr>minConfirmedVersion := computeMinConfirmed
                    (putEntry (workDone csl sid) (unat (indexNumber sid))
                              (e\<lparr>verifiedVersion := updateVersion e\<rparr>))\<rparr>)"
    by (simp add: workSuccess_def ge Let_def)
  have f: "workFailed csl sid =
             putEntry (workDone csl sid) (unat (indexNumber sid)) (e\<lparr>updateVersion := verifiedVersion e\<rparr>)"
    by (simp add: workFailed_def ge)
  have 1: "serverList (workSuccess csl sid) =
           (serverList csl)[unat (indexNumber sid) :=
              (fst (serverList csl ! unat (indexNumber sid)),
               Some (e\<lparr>verifiedVersion := updateVersion e\<rparr>))]"
    by (simp add: s) (simp add: putEntry_def)
  have 2: "getEntry (workSuccess csl sid) sid = Some (e\<lparr>verifiedVersion := updateVersion e\<rparr>)"
    by (simp add: s getEntry_putEntry_same[OF k'] id)
  have 3: "serverList (workFailed csl sid) =
           (serverList csl)[unat (indexNumber sid) :=
              (fst (serverList csl ! unat (indexNumber sid)),
               Some (e\<lparr>updateVersion := verifiedVersion e\<rparr>))]"
    by (simp add: f putEntry_def)
  have 4: "getEntry (workFailed csl sid) sid = Some (e\<lparr>updateVersion := verifiedVersion e\<rparr>)"
    by (simp add: f getEntry_putEntry_same[OF k'] id)
  have 5: "getEntry (workSuccess csl sid) sid' = getEntry csl sid' \<and>
           getEntry (workFailed csl sid) sid' = getEntry csl sid'" if "sid' \<noteq> sid" for sid'
    using getEntry_putEntry_other[OF ge' _ that] id by (simp add: s f)
  from 1 2 3 4 5 show ?thesis by blast
qed

theorem work_report_commit_rollback_witness:
  "getEntry exampleInFlight 1 = Some (exampleEntry\<lparr>updateVersion := 1\<rparr>) \<and>
   getEntry (workSuccess exampleInFlight 1) 1 =
     Some (exampleEntry\<lparr>updateVersion := 1, verifiedVersion := 1\<rparr>) \<and>
   getEntry (workFailed exampleInFlight 1) 1 = Some exampleEntry \<and>
   serverList (workSuccess exampleInFlight 1) =
     [(0, None), (0, Some (exampleEntry\<lparr>updateVersion := 1, verifiedVersion := 1\<rparr>))] \<and>
   serverList (workFailed exampleInFlight 1) = [(0, None), (0, Some exampleEntry)]"
proof -
  have g: "getEntry exampleInFlight 1 = Some (exampleEntry\<lparr>updateVersion := 1\<rparr>)"
    by (simp add: getEntry_def exampleInFlight_eval indexNumber_def exampleEntry_def Entry_new_def)
  have i: "unat (indexNumber 1) = 1" by (simp add: indexNumber_def)
  have v: "verifiedVersion exampleEntry = 0" "updateVersion exampleEntry = 0"
    by (simp_all add: exampleEntry_def Entry_new_def UNINITIALIZED_VERSION_def)
  from work_report_commit_rollback[OF g] g show ?thesis
    by (simp add: i exampleInFlight_eval v)
qed

lemma generateUniqueId_index:
  assumes "firstFreeIndex csl < 2 ^ 32" "generateUniqueId csl = (sid, csl')"
  shows "unat (indexNumber sid) = firstFreeIndex csl \<and>
         firstFreeIndex csl < length (serverList csl')"
  using assms by (auto simp: generateUniqueId_def Let_def indexNumber_mk unat_of_nat)

lemma getEntry_add:
  assumes "unat (indexNumber sid) < length (serverList csl)"
  shows "getEntry (add csl sid locator serviceMask readSpeed) sid =
           Some ((Entry_new sid locator serviceMask)\<lparr>expectedReadMBytesPerSec := readSpeed\<rparr>)"
  using assms by (simp add: add_def Let_def getEntry_def putEntry_def Entry_new_def)

text \<open>
  Claim C6. \<open>UNINITIALIZED_VERSION\<close> is 0, and a new entry has both \<open>verifiedVersion\<close> and
  \<open>updateVersion\<close> equal to it: as constructed, as installed by \<open>add\<close>, and as found in the list
  after \<open>enlistServer\<close>.
\<close>

theorem new_entry_versions_uninitialized:
  "UNINITIALIZED_VERSION = 0 \<and>
   verifiedVersion (Entry_new sid locator serviceMask) = UNINITIALIZED_VERSION \<and>
   updateVersion (Entry_new sid locator serviceMask) = UNINITIALIZED_VERSION \<and>
   (unat (indexNumber sid) < length (serverList csl) \<longrightarrow>
      (\<exists>e. getEntry (add csl sid locator serviceMask readSpeed) sid = Some e \<and>
           verifiedVersion e = UNINITIALIZED_VERSION \<and> updateVersion e = UNINITIALIZED_VERSION)) \<and>
   (firstFreeIndex csl < 2 ^ 32 \<longrightarrow>
      (\<exists>e. getEntry (snd (enlistServer csl replacesId serviceMask readSpeed locator))
              (fst (enlistServer csl replacesId serviceMask readSpeed locator)) = Some e \<and>
           verifiedVersion e = UNINITIALIZED_VERSION \<and> updateVersion e = UNINITIALIZED_VERSION))"
proof (intro conjI impI)
  show "UNINITIALIZED_VERSION = 0" by (simp add: UNINITIALIZED_VERSION_def)
  show "verifiedVersion (Entry_new sid locator serviceMask) = UNINITIALIZED_VERSION"
    "updateVersion (Entry_new sid locator serviceMask) = UNINITIALIZED_VERSION"
    by (simp_all add: Entry_new_def)
next
  assume "unat (indexNumber sid) < length (serverList csl)"
  from getEntry_add[OF this]
  show "\<exists>e. getEntry (add csl sid locator serviceMask readSpeed) sid = Some e \<and>
           verifiedVersion e = UNINITIALIZED_VERSION \<and> updateVersion e = UNINITIALIZED_VERSION"
    by (simp add: Entry_new_def)
next
  assume f: "firstFreeIndex csl < 2 ^ 32"
  define csl1 where "csl1 = (case getEntry csl replacesId of
                    None \<Rightarrow> csl
                  | Some e \<Rightarrow> if status e = UP then crashed csl replacesId else csl)"
  have f1: "firstFreeIndex csl1 < 2 ^ 32"
    using f by (simp add: csl1_def firstFreeIndex_crashed split: option.splits)
  obtain new csl2 where g: "generateUniqueId csl1 = (new, csl2)" by (cases "generateUniqueId csl1")
  from generateUniqueId_index[OF f1 g] have k: "unat (indexNumber new) < length (serverList csl2)"
    by simp
  have e: "enlistServer csl replacesId serviceMask readSpeed locator =
             (new, pushUpdate (add csl2 new locator serviceMask readSpeed))"
    by (simp add: enlistServer_def csl1_def[symmetric] g Let_def)
  have "getEntry (pushUpdate (add csl2 new locator serviceMask readSpeed)) new =
          getEntry (add csl2 new locator serviceMask readSpeed) new"
    by (simp add: getEntry_def)
  with getEntry_add[OF k]
  show "\<exists>e. getEntry (snd (enlistServer csl replacesId serviceMask readSpeed locator))
              (fst (enlistServer csl replacesId serviceMask readSpeed locator)) = Some e \<and>
           verifiedVersion e = UNINITIALIZED_VERSION \<and> updateVersion e = UNINITIALIZED_VERSION"
    by (simp add: e Entry_new_def)
qed

theorem new_entry_versions_uninitialized_witness:
  "UNINITIALIZED_VERSION = 0 \<and>
   unat (indexNumber 1) < length (serverList exampleEnlisted) \<and>
   (\<exists>e. getEntry (add exampleEnlisted 1 ''tcp:2'' {BACKUP_SERVICE} 7) 1 = Some e \<and>
        verifiedVersion e = 0 \<and> updateVersion e = 0) \<and>
   firstFreeIndex CoordinatorServerList_init < 2 ^ 32 \<and>
   fst (enlistServer CoordinatorServerList_init 0 {MASTER_SERVICE, MEMBERSHIP_SERVICE} 100 ''tcp:1'')
     = 1 \<and>
   (\<exists>e. getEntry (snd (enlistServer CoordinatorServerList_init 0
                         {MASTER_SERVICE, MEMBERSHIP_SERVICE} 100 ''tcp:1'')) 1 = Some e \<and>
        verifiedVersion e = 0 \<and> updateVersion e = 0)"
proof -
  have k: "unat (indexNumber 1) < length (serverList exampleEnlisted)"
    by (simp add: exampleEnlisted_eval indexNumber_def)
  have f: "firstFreeIndex CoordinatorServerList_init < 2 ^ 32"
    by (simp add: firstFreeIndex_def CoordinatorServerList_init_def)
  have i: "fst (enlistServer CoordinatorServerList_init 0 {MASTER_SERVICE, MEMBERSHIP_SERVICE}
                  100 ''tcp:1'') = 1"
    by (simp add: enlistServer_def getEntry_def CoordinatorServerList_init_def indexNumber_def
        generateUniqueId_def firstFreeIndex_def mkServerId_def Let_def)
  from new_entry_versions_uninitialized[where csl = exampleEnlisted
      and serviceMask = "{BACKUP_SERVICE}" and readSpeed = 7 and locator = "''tcp:2''"
      and sid = 1] k
  have a: "\<exists>e. getEntry (add exampleEnlisted 1 ''tcp:2'' {BACKUP_SERVICE} 7) 1 = Some e \<and>
        verifiedVersion e = 0 \<and> updateVersion e = 0"
    by (simp add: UNINITIALIZED_VERSION_def)
  from new_entry_versions_uninitialized[where csl = CoordinatorServerList_init
      and replacesId = 0 and serviceMask = "{MASTER_SERVICE, MEMBERSHIP_SERVICE}"
      and readSpeed = 100 and locator = "''tcp:1''" and sid = 0] f i
  have b: "\<exists>e. getEntry (snd (enlistServer CoordinatorServerList_init 0
                         {MASTER_SERVICE, MEMBERSHIP_SERVICE} 100 ''tcp:1'')) 1 = Some e \<and>
        verifiedVersion e = 0 \<and> updateVersion e = 0"
    by (simp add: UNINITIALIZED_VERSION_def)
  from a b k f i show ?thesis by (simp add: UNINITIALIZED_VERSION_def)
qed

lemma removalsFirst_snoc_UP:
  "removalsFirst ds \<Longrightarrow> status d = UP \<Longrightarrow> removalsFirst (ds @ [d])"
  by (induction ds) auto

lemma removalsFirst_all_UP: "\<forall>d \<in> set ds. status d = UP \<Longrightarrow> removalsFirst ds"
  by (induction ds) auto

lemma publishedOrdered_pushUpdate:
  assumes "\<forall>p \<in> set (updates csl). removalsFirst (server (incremental p))"
    "removalsFirst (update csl)"
  shows "publishedOrdered (pushUpdate csl)"
  using assms by (simp add: publishedOrdered_def pushUpdate_def Let_def)

lemma crashed_staged:
  "updates (crashed csl sid) = updates csl \<and>
   (case getEntry csl sid of
      None \<Rightarrow> update (crashed csl sid) = update csl
    | Some e \<Rightarrow>
        update (crashed csl sid) =
          (if status e = UP then update csl @ [serializeEntry (e\<lparr>status := CRASHED\<rparr>)]
           else update csl))"
  by (simp add: crashed_def putEntry_def Let_def split: option.splits)

lemma generateUniqueId_staged:
  "generateUniqueId csl = (sid, csl') \<Longrightarrow>
   update csl' = update csl \<and> updates csl' = updates csl \<and> currentVersion csl' = currentVersion csl"
  by (auto simp: generateUniqueId_def Let_def)

lemma add_staged:
  "update (add csl sid locator serviceMask readSpeed) =
     update csl @ [serializeEntry ((Entry_new sid locator serviceMask)
                                     \<lparr>expectedReadMBytesPerSec := readSpeed\<rparr>)] \<and>
   updates (add csl sid locator serviceMask readSpeed) = updates csl"
  by (simp add: add_def putEntry_def Let_def)

lemma status_serialize [simp]: "status (serializeEntry e) = status e"
  "serverId (serializeEntry e) = serverId e"
  by (simp_all add: serializeEntry_def)

lemma enlistServer_published:
  assumes u: "update csl = []"
  shows "\<exists>pair. updates (snd (enlistServer csl replacesId serviceMask readSpeed locator)) =
                  updates csl @ [pair] \<and>
           update (snd (enlistServer csl replacesId serviceMask readSpeed locator)) = [] \<and>
           currentVersion (snd (enlistServer csl replacesId serviceMask readSpeed locator)) =
             currentVersion csl + 1 \<and>
           map (\<lambda>d. (serverId d, status d)) (server (incremental pair)) =
             (case getEntry csl replacesId of
                None \<Rightarrow> []
              | Some old \<Rightarrow> if status old = UP then [(replacesId, CRASHED)] else []) @
             [(fst (enlistServer csl replacesId serviceMask readSpeed locator), UP)]"
proof -
  define csl1 where "csl1 = (case getEntry csl replacesId of
                    None \<Rightarrow> csl
                  | Some e \<Rightarrow> if status e = UP then crashed csl replacesId else csl)"
  obtain new csl2 where g: "generateUniqueId csl1 = (new, csl2)" by (cases "generateUniqueId csl1")
  have e: "enlistServer csl replacesId serviceMask readSpeed locator =
             (new, pushUpdate (add csl2 new locator serviceMask readSpeed))"
    by (simp add: enlistServer_def csl1_def[symmetric] g Let_def)
  have c1: "updates csl1 = updates csl" "currentVersion csl1 = currentVersion csl"
    "map (\<lambda>d. (serverId d, status d)) (update csl1) =
       (case getEntry csl replacesId of
                None \<Rightarrow> []
              | Some old \<Rightarrow> if status old = UP then [(replacesId, CRASHED)] else [])"
    using u crashed_staged[of csl replacesId]
    by (auto simp: csl1_def split: option.splits dest: getEntry_Some)
  from generateUniqueId_staged[OF g] have c2: "update csl2 = update csl1"
    "updates csl2 = updates csl1" "currentVersion csl2 = currentVersion csl1" by simp_all
  show ?thesis
    unfolding e
    by (simp add: pushUpdate_def Let_def add_staged c1 c2 Entry_new_def)
qed

lemma setReplicationIds_staged:
  "\<forall>sid \<in> set ids. (case getEntry csl sid of None \<Rightarrow> False | Some e \<Rightarrow> status e = UP) \<Longrightarrow>
   \<exists>ds. update (setReplicationIds csl rid ids) = update csl @ ds \<and>
        (\<forall>d \<in> set ds. status d = UP) \<and>
        updates (setReplicationIds csl rid ids) = updates csl"
proof (induction ids arbitrary: csl)
  case Nil
  then show ?case by simp
next
  case (Cons sid rest)
  from Cons.prems obtain e where ge: "getEntry csl sid = Some e" and up: "status e = UP"
    by (auto split: option.splits)
  let ?e' = "e\<lparr>replicationId := rid\<rparr>"
  let ?csl1 = "putEntry csl (unat (indexNumber sid)) ?e'"
  let ?csl2 = "?csl1\<lparr>update := update ?csl1 @ [serializeEntry ?e']\<rparr>"
  from getEntry_Some[OF ge] have k: "unat (indexNumber sid) < length (serverList csl)"
    and id: "serverId e = sid" by simp_all
  have "case getEntry ?csl2 s of None \<Rightarrow> False | Some e \<Rightarrow> status e = UP" if "s \<in> set rest" for s
  proof (cases "s = sid")
    case True
    then show ?thesis using getEntry_putEntry_same[OF k, of ?e'] id up by simp
  next
    case False
    from getEntry_putEntry_other[OF ge _ False, of ?e'] id
    show ?thesis using Cons.prems that by simp
  qed
  then have "\<forall>s \<in> set rest. case getEntry ?csl2 s of None \<Rightarrow> False | Some e \<Rightarrow> status e = UP"
    by blast
  from Cons.IH[OF this] obtain ds where
    "update (setReplicationIds ?csl2 rid rest) = update ?csl2 @ ds"
    "\<forall>d \<in> set ds. status d = UP"
    "updates (setReplicationIds ?csl2 rid rest) = updates ?csl2" by blast
  then have "update (setReplicationIds csl rid (sid # rest)) =
               update csl @ (serializeEntry ?e' # ds) \<and>
             (\<forall>d \<in> set (serializeEntry ?e' # ds). status d = UP) \<and>
             updates (setReplicationIds csl rid (sid # rest)) = updates csl"
    using ge up by (simp add: Let_def putEntry_def)
  then show ?case by blast
qed

lemma publishedOrdered_step:
  assumes j: "publishedOrdered csl"
  shows "publishedOrdered (step csl op)"
proof (cases op)
  case (EnlistServer replacesId serviceMask readSpeed locator)
  from j have u: "update csl = []" by (simp add: publishedOrdered_def)
  from enlistServer_published[OF u, of replacesId serviceMask readSpeed locator]
  obtain pair where
    p: "updates (snd (enlistServer csl replacesId serviceMask readSpeed locator)) =
                  updates csl @ [pair]"
       "update (snd (enlistServer csl replacesId serviceMask readSpeed locator)) = []"
       "map (\<lambda>d. (serverId d, status d)) (server (incremental pair)) =
             (case getEntry csl replacesId of
                None \<Rightarrow> []
              | Some old \<Rightarrow> if status old = UP then [(replacesId, CRASHED)] else []) @
             [(fst (enlistServer csl replacesId serviceMask readSpeed locator), UP)]"
    by blast
  have "map status (server (incremental pair)) = [UP] \<or>
        map status (server (incremental pair)) = [CRASHED, UP]"
    using arg_cong[OF p(3), of "map snd"] by (auto simp: comp_def split: option.splits if_splits)
  then have "removalsFirst (server (incremental pair))"
    by (cases "server (incremental pair)") (auto simp: map_eq_Cons_conv)
  then show ?thesis using j p by (simp add: EnlistServer publishedOrdered_def)
next
  case (ServerCrashed sid)
  show ?thesis
  proof (cases "getEntry csl sid")
    case None
    then show ?thesis using j by (simp add: ServerCrashed serverCrashed_def)
  next
    case (Some e)
    from j crashed_staged[of csl sid] Some have
      "status e = UP \<Longrightarrow> publishedOrdered (pushUpdate (crashed csl sid))"
      by (intro publishedOrdered_pushUpdate) (auto simp: publishedOrdered_def)
    then show ?thesis using j Some by (simp add: ServerCrashed serverCrashed_def)
  qed
next
  case (RecoveryCompleted sid)
  show ?thesis
  proof (cases "getEntry csl sid")
    case None
    then show ?thesis using j by (simp add: RecoveryCompleted recoveryCompleted_def)
  next
    case (Some e)
    have "publishedOrdered (pushUpdate
            ((putEntry csl (unat (indexNumber sid)) (e\<lparr>status := REMOVED\<rparr>))
               \<lparr>update := update (putEntry csl (unat (indexNumber sid)) (e\<lparr>status := REMOVED\<rparr>)) @
                            [serializeEntry (e\<lparr>status := REMOVED\<rparr>)]\<rparr>))"
      using j by (intro publishedOrdered_pushUpdate) (auto simp: publishedOrdered_def putEntry_def)
    then show ?thesis using j Some by (simp add: RecoveryCompleted recoveryCompleted_def Let_def)
  qed
next
  case (ReleaseSlot sid)
  then show ?thesis using j
    by (simp add: releaseSlot_def publishedOrdered_def split: option.splits)
next
  case (SetMasterRecoveryInfo sid info)
  then show ?thesis using j
    by (simp add: setMasterRecoveryInfo_def publishedOrdered_def putEntry_def split: option.splits)
next
  case (ReplicationGroupChange rid ids)
  show ?thesis
  proof (cases "\<forall>sid \<in> set ids. (case getEntry csl sid of None \<Rightarrow> False | Some e \<Rightarrow> status e = UP)")
    case False
    then have "assignReplicationGroup csl rid ids = (False, csl)"
      unfolding assignReplicationGroup_def by (rule if_not_P)
    then show ?thesis using j
      by (simp add: ReplicationGroupChange replicationGroupChange_def)
  next
    case True
    from setReplicationIds_staged[OF True, of rid] j obtain ds where
      "update (setReplicationIds csl rid ids) = ds" "\<forall>d \<in> set ds. status d = UP"
      "updates (setReplicationIds csl rid ids) = updates csl"
      by (auto simp: publishedOrdered_def)
    then have "publishedOrdered (pushUpdate (setReplicationIds csl rid ids))"
      using j by (intro publishedOrdered_pushUpdate)
        (auto simp: publishedOrdered_def intro: removalsFirst_all_UP)
    moreover have "assignReplicationGroup csl rid ids = (True, setReplicationIds csl rid ids)"
      unfolding assignReplicationGroup_def using True by (rule if_P)
    ultimately show ?thesis
      by (simp add: ReplicationGroupChange replicationGroupChange_def)
  qed
next
  case GetWork
  have "update (snd (scanServerList n i c)) = update c \<and>
        updates (snd (scanServerList n i c)) = updates c" for n i c
    by (induction n arbitrary: i c) (auto simp: Let_def putEntry_def split: option.splits)
  then show ?thesis using j by (simp add: GetWork getWork_def publishedOrdered_def)
next
  case (WorkSuccess sid)
  have "set (dropWhile P (updates csl)) \<subseteq> set (updates csl)" for P
    by (rule subsetI) (rule set_dropWhileD)
  then show ?thesis using j
    by (auto simp: WorkSuccess workSuccess_def publishedOrdered_def pruneUpdates_def workDone_def
        putEntry_def Let_def split: option.splits)
next
  case (WorkFailed sid)
  then show ?thesis using j
    by (simp add: workFailed_def publishedOrdered_def workDone_def putEntry_def
        split: option.splits)
qed

lemma reachable_publishedOrdered: "reachable csl \<Longrightarrow> publishedOrdered csl"
proof (induction rule: reachable.induct)
  case reachable_init
  show ?case by (simp add: publishedOrdered_def CoordinatorServerList_init_def)
next
  case (reachable_step csl op)
  then show ?case by (simp add: publishedOrdered_step)
qed

text \<open>
  Claim C3. In every reachable state, each published incremental lists its removals and crashes
  before its additions; and an enlistment that replaces a server whose entry is \<open>UP\<close> publishes
  one incremental, under the next version, that holds the \<open>CRASHED\<close> record of the replaced
  server followed by the \<open>UP\<close> record of the new one.
\<close>

theorem published_incrementals_ordered:
  assumes "reachable csl"
  shows "(\<forall>p \<in> set (updates csl). removalsFirst (server (incremental p))) \<and>
         (\<forall>old. getEntry csl replacesId = Some old \<and> status old = UP \<longrightarrow>
            (\<exists>pair. updates (snd (enlistServer csl replacesId serviceMask readSpeed locator)) =
                       updates csl @ [pair] \<and>
                    map (\<lambda>d. (serverId d, status d)) (server (incremental pair)) =
                      [(replacesId, CRASHED),
                       (fst (enlistServer csl replacesId serviceMask readSpeed locator), UP)] \<and>
                    currentVersion (snd (enlistServer csl replacesId serviceMask readSpeed locator)) =
                      currentVersion csl + 1))"
proof -
  from reachable_publishedOrdered[OF assms] have j: "publishedOrdered csl" .
  then have u: "update csl = []" by (simp add: publishedOrdered_def)
  from enlistServer_published[OF u, of replacesId serviceMask readSpeed locator] j
  show ?thesis by (auto simp: publishedOrdered_def)
qed

lemma exampleEnlisted_replace:
  "getEntry exampleEnlisted 1 = Some exampleEntry"
  "status exampleEntry = UP"
  "fst (enlistServer exampleEnlisted 1 {BACKUP_SERVICE} 0 ''tcp:2'') = 2"
  by (simp_all add: exampleEnlisted_def enlistServer_def getEntry_def CoordinatorServerList_init_def
      indexNumber_def generateUniqueId_def firstFreeIndex_def mkServerId_def add_def putEntry_def
      pushUpdate_def Let_def exampleEntry_def serializeEntry_def Entry_new_def ScanMetadata_init_def
      crashed_def generationNumber_def)

theorem published_incrementals_ordered_witness:
  "reachable exampleEnlisted \<and> getEntry exampleEnlisted 1 = Some exampleEntry \<and>
   status exampleEntry = UP \<and>
   (\<exists>pair. updates (snd (enlistServer exampleEnlisted 1 {BACKUP_SERVICE} 0 ''tcp:2'')) =
             updates exampleEnlisted @ [pair] \<and>
           map (\<lambda>d. (serverId d, status d)) (server (incremental pair)) =
             [(1, CRASHED), (2, UP)] \<and>
           currentVersion (snd (enlistServer exampleEnlisted 1 {BACKUP_SERVICE} 0 ''tcp:2'')) = 2)"
proof -
  from published_incrementals_ordered[OF reachable_exampleEnlisted,
      of 1 "{BACKUP_SERVICE}" 0 "''tcp:2''"]
  have "\<exists>pair. updates (snd (enlistServer exampleEnlisted 1 {BACKUP_SERVICE} 0 ''tcp:2'')) =
             updates exampleEnlisted @ [pair] \<and>
           map (\<lambda>d. (serverId d, status d)) (server (incremental pair)) =
             [(1, CRASHED), (fst (enlistServer exampleEnlisted 1 {BACKUP_SERVICE} 0 ''tcp:2''), UP)] \<and>
           currentVersion (snd (enlistServer exampleEnlisted 1 {BACKUP_SERVICE} 0 ''tcp:2'')) =
             currentVersion exampleEnlisted + 1"
    using exampleEnlisted_replace(1,2) by blast
  then show ?thesis
    using reachable_exampleEnlisted exampleEnlisted_replace
    by (simp add: exampleEnlisted_eval)
qed

end
